theory Spec2Isabelle
  imports
    Main
    "HOL-Library.Char_ord"
    "HOL-Library.List_Lexorder"
    "HOL-Library.Option_ord"
    "HOL-Library.Product_Lexorder"
    "HOL-Library.Multiset"
begin

section \<open>The store: schema, rows and connections (main.py, SCHEMA and connect)\<close>

text \<open>
  The two tables of \<^verbatim>\<open>SCHEMA\<close>. A table is the list of its rows in rowid order.
  Columns declared \<^verbatim>\<open>NOT NULL\<close> hold a value; \<^verbatim>\<open>city\<close>, the one nullable column, holds an
  option, \<open>None\<close> being SQL NULL. \<^verbatim>\<open>INTEGER\<close> columns hold an \<open>int\<close>, \<^verbatim>\<open>TEXT\<close> columns a
  \<open>string\<close>.

  The column \<^verbatim>\<open>amount\<close> is \<^verbatim>\<open>REAL\<close>: it holds IEEE doubles, infinities included, and the
  sums that the queries take of it are sums of doubles. No type of doubles is fixed
  here. The values of \<^verbatim>\<open>amount\<close> and of the sums are of a type \<open>'v\<close>, of which only this is
  used: it is linearly ordered, the way SQLite compares values (NULL first, numbers by
  value), and \<open>0\<close> is the number zero.
\<close>

record customer =
  customer_id :: int
  first_name :: string
  last_name :: string
  email :: string
  city :: "string option"
  signup_date :: string

record 'v order =
  order_id :: int
  o_customer_id :: int
  order_date :: string
  category :: string
  amount :: 'v
  status :: string

record 'v db =
  customers :: "customer list"
  orders :: "'v order list"

definition empty_db :: "'v db" where
  "empty_db = \<lparr>customers = [], orders = []\<rparr>"

text \<open>
  A connection carries the engine's \<^verbatim>\<open>foreign_keys\<close> switch, which SQLite leaves off
  for a new connection, and the content of the database file.
\<close>

record 'v conn =
  foreign_keys :: bool
  store :: "'v db"

definition sqlite3_connect :: "'v db \<Rightarrow> 'v conn" where
  "sqlite3_connect d = \<lparr>foreign_keys = False, store = d\<rparr>"

definition connect :: "'v db \<Rightarrow> 'v conn" where
  "connect d = (sqlite3_connect d)\<lparr>foreign_keys := True\<rparr>"

text \<open>
  The exceptions that a write can raise. Every constraint violation of the schema raises
  \<^verbatim>\<open>sqlite3.IntegrityError\<close>; the constraint that failed is kept. \<^verbatim>\<open>OverflowError\<close> is what
  the \<^verbatim>\<open>sqlite3\<close> module raises, before the statement runs, when a Python integer among
  the parameters does not fit in 64 bits.
\<close>

datatype constraint = NotNull | CheckFailed | UniqueFailed | ForeignKeyFailed

datatype py_exception = IntegrityError constraint | OverflowError

section \<open>What the SQLite library supplies\<close>

text \<open>
  The source of main.py hands these computations to the SQLite library, so they are
  parameters of the model, collected in a record; every theorem on the program holds
  for every such record.

  \<^item> \<open>sum_of E vs\<close>: the value of \<^verbatim>\<open>SUM\<close> over a group whose rows carry the values \<open>vs\<close>.
    The values are listed in the order of the order rows in their table, which is the
    order in which SQLite, scanning \<^verbatim>\<open>orders\<close>, adds them.
  \<^item> \<open>strftime_ym E s\<close>: the value of \<^verbatim>\<open>strftime('%Y-%m', s)\<close>, NULL when SQLite does not
    read \<open>s\<close> as a time value.
  \<^item> \<open>int_to_real E i\<close>: the \<^verbatim>\<open>REAL\<close> value stored for the 64-bit integer \<open>i\<close> (the nearest
    double).
  \<^item> \<open>random_rowid E ids\<close>: the rowid that SQLite picks at random for a new row of a
    table whose rowids are \<open>ids\<close>, when the largest possible rowid is in use.
  \<^item> \<open>top_tiebreak E\<close> and \<open>window_tiebreak E\<close>: the order SQL leaves open. Rows with equal
    revenue come out of \<^verbatim>\<open>ORDER BY revenue DESC\<close> in ascending order of the number that
    these functions give to their customer_id, in top_customers and in the window of
    window_rank_in_city.
\<close>

record 'v engine =
  sum_of :: "'v list \<Rightarrow> 'v"
  strftime_ym :: "string \<Rightarrow> string option"
  int_to_real :: "int \<Rightarrow> 'v"
  random_rowid :: "int list \<Rightarrow> int"
  top_tiebreak :: "int \<Rightarrow> int"
  window_tiebreak :: "int \<Rightarrow> int"

text \<open>
  When the largest rowid is in use, SQLite tries rowids at random until it finds one
  that is not in use; an engine whose picks are never in use has \<open>fresh_rowids\<close>.
\<close>

definition fresh_rowids :: "'v engine \<Rightarrow> bool" where
  "fresh_rowids E \<longleftrightarrow> (\<forall>ids. random_rowid E ids \<notin> set ids)"

section \<open>Write path (load_customers, load_orders)\<close>

text \<open>
  The parameter tuples handed to \<^verbatim>\<open>executemany\<close>: one value per \<^verbatim>\<open>?\<close>, where Python's
  \<^verbatim>\<open>None\<close> binds NULL. A text parameter is a \<^verbatim>\<open>str\<close>, customer_id an \<^verbatim>\<open>int\<close> of any size,
  and the amount an \<^verbatim>\<open>int\<close> or a \<^verbatim>\<open>float\<close>, which is a double or NaN.
\<close>

datatype 'v py_number = PyInt int | PyFloat 'v | PyNaN

type_synonym customer_row =
  "string option \<times> string option \<times> string option \<times> string option \<times> string option"

type_synonym 'v order_row =
  "int option \<times> string option \<times> string option \<times> 'v py_number option \<times> string option"

text \<open>
  An \<^verbatim>\<open>INTEGER PRIMARY KEY\<close> that the insert leaves out is assigned 1 in an empty table
  and otherwise one more than the largest rowid of the table, unless that is the
  largest 64-bit integer: then SQLite picks an unused rowid at random.
\<close>

definition next_rowid :: "'v engine \<Rightarrow> int list \<Rightarrow> int" where
  "next_rowid E ids =
     (case ids of
        [] \<Rightarrow> 1
      | i # js \<Rightarrow>
          if fold max js i = 9223372036854775807 then random_rowid E ids
          else fold max js i + 1)"

text \<open>
  \<^verbatim>\<open>INSERT INTO customers(first_name,last_name,email,city,signup_date) VALUES (?,?,?,?,?)\<close>:
  the \<^verbatim>\<open>NOT NULL\<close> columns are checked first, then \<^verbatim>\<open>UNIQUE\<close> on email.
\<close>

definition insert_customer :: "'v engine \<Rightarrow> 'v db \<Rightarrow> customer_row \<Rightarrow> py_exception + 'v db" where
  "insert_customer E d r =
     (case r of
        (Some f, Some l, Some e, ci, Some s) \<Rightarrow>
          if e \<in> set (map email (customers d)) then Inl (IntegrityError UniqueFailed)
          else Inr (d\<lparr>customers := customers d @
                 [\<lparr>customer_id = next_rowid E (map customer_id (customers d)),
                   first_name = f, last_name = l, email = e, city = ci,
                   signup_date = s\<rparr>]\<rparr>)
      | _ \<Rightarrow> Inl (IntegrityError NotNull))"

definition STATUSES :: "string list" where
  "STATUSES = [''PAID'', ''CANCELLED'', ''REFUNDED'']"

text \<open>
  Binding the parameters of the \<^verbatim>\<open>orders\<close> insert. The \<^verbatim>\<open>sqlite3\<close> module binds a Python
  \<^verbatim>\<open>int\<close> as a 64-bit integer and raises \<^verbatim>\<open>OverflowError\<close> when it does not fit; a row can be
  bound when its customer_id and its amount, where they are integers, fit.
\<close>

definition int64 :: "int \<Rightarrow> bool" where
  "int64 i \<longleftrightarrow> - 9223372036854775808 \<le> i \<and> i \<le> 9223372036854775807"

definition bindable :: "'v order_row \<Rightarrow> bool" where
  "bindable r =
     (case r of
        (cid, od, cat, a, st) \<Rightarrow>
          (case cid of Some i \<Rightarrow> int64 i | None \<Rightarrow> True) \<and>
          (case a of Some (PyInt i) \<Rightarrow> int64 i | _ \<Rightarrow> True))"

text \<open>
  The value that reaches the \<^verbatim>\<open>REAL\<close> column \<^verbatim>\<open>amount\<close>: a double as it is, an integer as
  the nearest double, and NaN as NULL, which is how SQLite binds it.
\<close>

definition real_value :: "'v engine \<Rightarrow> 'v py_number \<Rightarrow> 'v option" where
  "real_value E a =
     (case a of PyInt i \<Rightarrow> Some (int_to_real E i) | PyFloat v \<Rightarrow> Some v | PyNaN \<Rightarrow> None)"

text \<open>
  \<^verbatim>\<open>INSERT INTO orders(customer_id,order_date,category,amount,status) VALUES (?,?,?,?,?)\<close>:
  the parameters are bound; then the statement checks the \<^verbatim>\<open>NOT NULL\<close> columns, then
  the \<^verbatim>\<open>CHECK\<close> on status, then, at the end of the statement and only when the connection
  has \<^verbatim>\<open>foreign_keys\<close> on, the foreign key. The schema has no check on amount.
\<close>

definition insert_order ::
  "'v engine \<Rightarrow> bool \<Rightarrow> 'v db \<Rightarrow> 'v order_row \<Rightarrow> py_exception + 'v db" where
  "insert_order E fk d r =
     (if \<not> bindable r then Inl OverflowError
      else
        (case r of
           (Some cid, Some od, Some cat, Some a, Some st) \<Rightarrow>
             (case real_value E a of
                None \<Rightarrow> Inl (IntegrityError NotNull)
              | Some v \<Rightarrow>
                  if st \<notin> set STATUSES then Inl (IntegrityError CheckFailed)
                  else if fk \<and> cid \<notin> set (map customer_id (customers d))
                  then Inl (IntegrityError ForeignKeyFailed)
                  else Inr (d\<lparr>orders := orders d @
                         [\<lparr>order_id = next_rowid E (map order_id (orders d)),
                           o_customer_id = cid, order_date = od, category = cat,
                           amount = v, status = st\<rparr>]\<rparr>))
         | _ \<Rightarrow> Inl (IntegrityError NotNull)))"

text \<open>
  \<^verbatim>\<open>executemany\<close> runs the statement once per row inside the open transaction and stops
  at the first exception. It returns the working state of the transaction, which still
  holds the rows inserted before the failing one.
\<close>

fun executemany ::
  "('s \<Rightarrow> 'r \<Rightarrow> py_exception + 's) \<Rightarrow> 's \<Rightarrow> 'r list \<Rightarrow> 's \<times> py_exception option" where
  "executemany stmt d [] = (d, None)"
| "executemany stmt d (r # rs) =
     (case stmt d r of Inl e \<Rightarrow> (d, Some e) | Inr d' \<Rightarrow> executemany stmt d' rs)"

text \<open>
  \<^verbatim>\<open>with conn:\<close> commits the transaction when the body ends normally and rolls it back
  when the body raises; the exception goes on to the caller.
\<close>

definition with_conn ::
  "'v conn \<Rightarrow> (bool \<Rightarrow> 'v db \<Rightarrow> 'v db \<times> py_exception option) \<Rightarrow> 'v conn \<times> py_exception option" where
  "with_conn c body =
     (case body (foreign_keys c) (store c) of
        (d', None) \<Rightarrow> (c\<lparr>store := d'\<rparr>, None)
      | (d', Some e) \<Rightarrow> (c, Some e))"

definition load_customers ::
  "'v engine \<Rightarrow> 'v conn \<Rightarrow> customer_row list \<Rightarrow> 'v conn \<times> py_exception option" where
  "load_customers E c rows = with_conn c (\<lambda>fk d. executemany (insert_customer E) d rows)"

definition load_orders ::
  "'v engine \<Rightarrow> 'v conn \<Rightarrow> 'v order_row list \<Rightarrow> 'v conn \<times> py_exception option" where
  "load_orders E c rows = with_conn c (\<lambda>fk d. executemany (insert_order E fk) d rows)"

section \<open>Transaction demo (demo_tx_and_params)\<close>

text \<open>
  Two inserts of the same row in one \<^verbatim>\<open>with conn:\<close> block; \<^verbatim>\<open>except sqlite3.IntegrityError\<close>
  catches an integrity error and lets any other exception through. Then the
  parameterised read \<^verbatim>\<open>SELECT COUNT(*) FROM customers WHERE city = ?\<close>. The result is
  the connection afterwards, the exception that was caught, if any, and the count
  that is printed; \<open>Inl\<close> is an exception that leaves the function. The parameter
  \<open>today\<close> is \<^verbatim>\<open>datetime.now().strftime("%Y-%m-%d")\<close>.
\<close>

definition count_customers_in_city :: "'v db \<Rightarrow> string \<Rightarrow> nat" where
  "count_customers_in_city d ci = length (filter (\<lambda>c. city c = Some ci) (customers d))"

definition temporal_row :: "string \<Rightarrow> customer_row" where
  "temporal_row today =
     (Some ''Temporal'', Some ''Test'', Some ''temporal@example.com'', Some ''Santiago'',
      Some today)"

definition demo_tx_and_params ::
  "'v engine \<Rightarrow> 'v conn \<Rightarrow> string \<Rightarrow> py_exception + ('v conn \<times> py_exception option \<times> nat)" where
  "demo_tx_and_params E c today =
     (case with_conn c (\<lambda>fk d.
              case insert_customer E d (temporal_row today) of
                Inl e \<Rightarrow> (d, Some e)
              | Inr d1 \<Rightarrow>
                  (case insert_customer E d1 (temporal_row today) of
                     Inl e \<Rightarrow> (d1, Some e)
                   | Inr d2 \<Rightarrow> (d2, None))) of
        (c', Some (IntegrityError k)) \<Rightarrow>
          Inr (c', Some (IntegrityError k), count_customers_in_city (store c') ''Santiago'')
      | (c', Some e) \<Rightarrow> Inl e
      | (c', None) \<Rightarrow> Inr (c', None, count_customers_in_city (store c') ''Santiago''))"

section \<open>Schema invariants\<close>

text \<open>
  \<^verbatim>\<open>customer_id INTEGER PRIMARY KEY\<close>: no two customer rows share an identity. The
  invariant holds in the empty store and every write keeps it.
\<close>

definition primary_key_ok :: "'v db \<Rightarrow> bool" where
  "primary_key_ok d \<longleftrightarrow> distinct (map customer_id (customers d))"

text \<open>
  All constraints of \<^verbatim>\<open>SCHEMA\<close> together, with the foreign key enforced: what a store
  written through \<^verbatim>\<open>connect\<close> satisfies.
\<close>

definition schema_ok :: "'v db \<Rightarrow> bool" where
  "schema_ok d \<longleftrightarrow>
     distinct (map customer_id (customers d)) \<and> distinct (map email (customers d)) \<and>
     distinct (map order_id (orders d)) \<and>
     list_all (\<lambda>x. status x \<in> set STATUSES \<and>
                   o_customer_id x \<in> set (map customer_id (customers d))) (orders d)"

section \<open>Query catalog (SQL)\<close>

text \<open>
  Each query of \<^verbatim>\<open>SQL\<close> is evaluated in the order SQL prescribes: \<^verbatim>\<open>FROM\<close>/\<^verbatim>\<open>JOIN\<close>,
  \<^verbatim>\<open>GROUP BY\<close> with its aggregates, \<^verbatim>\<open>HAVING\<close>, window functions, \<^verbatim>\<open>ORDER BY\<close>, \<^verbatim>\<open>LIMIT\<close>.
  Values compare as SQLite compares them: NULL before every text (\<open>None < Some x\<close>),
  texts byte by byte, numbers by value.
\<close>

text \<open>
  \<^verbatim>\<open>FROM customers c JOIN orders o ON o.customer_id = c.customer_id\<close>: SQLite scans
  \<^verbatim>\<open>orders\<close> and looks up the customer of each order, so the rows of the join come in
  the order of the order rows.
\<close>

definition join_rows :: "'v db \<Rightarrow> (customer \<times> 'v order) list" where
  "join_rows d =
     concat (map (\<lambda>x. map (\<lambda>c. (c, x))
                        (filter (\<lambda>c. customer_id c = o_customer_id x) (customers d)))
                 (orders d))"

text \<open>\<^verbatim>\<open>CASE WHEN status='PAID' THEN amount ELSE 0 END\<close>\<close>

definition paid_amount :: "('v::zero) order \<Rightarrow> 'v" where
  "paid_amount x = (if status x = ''PAID'' then amount x else 0)"

text \<open>\<^verbatim>\<open>c.first_name || ' ' || c.last_name\<close>\<close>

definition customer_name :: "customer \<Rightarrow> string" where
  "customer_name c = first_name c @ '' '' @ last_name c"

text \<open>\<^verbatim>\<open>GROUP BY\<close>: one group per distinct key, holding the rows that have the key.\<close>

definition group_by :: "('r \<Rightarrow> 'k::linorder) \<Rightarrow> 'r list \<Rightarrow> ('k \<times> 'r list) list" where
  "group_by key rows =
     map (\<lambda>k. (k, filter (\<lambda>r. key r = k) rows)) (sort (remdups (map key rows)))"

text \<open>
  \<^verbatim>\<open>ORDER BY revenue DESC\<close>, the rows with equal revenue in ascending order of \<open>tie\<close>.
\<close>

definition order_desc :: "('r \<Rightarrow> 'v::linorder) \<Rightarrow> ('r \<Rightarrow> int) \<Rightarrow> 'r list \<Rightarrow> 'r list" where
  "order_desc revenue tie rows = rev (sort_key (\<lambda>r. (revenue r, - tie r)) rows)"

subsection \<open>top_customers\<close>

record 'v top_row =
  tc_customer_id :: int
  tc_customer :: string
  tc_city :: "string option"
  tc_revenue :: 'v

text \<open>The rows after \<^verbatim>\<open>GROUP BY c.customer_id, customer, c.city\<close>, one per group.\<close>

definition top_groups :: "'v engine \<Rightarrow> ('v::{linorder,zero}) db \<Rightarrow> 'v top_row list" where
  "top_groups E d =
     map (\<lambda>((cid, name, cty), g).
            \<lparr>tc_customer_id = cid, tc_customer = name, tc_city = cty,
             tc_revenue = sum_of E (map (paid_amount \<circ> snd) g)\<rparr>)
         (group_by (\<lambda>(c, x). (customer_id c, customer_name c, city c)) (join_rows d))"

text \<open>\<^verbatim>\<open>HAVING revenue > 0\<close>\<close>

definition top_candidates :: "'v engine \<Rightarrow> ('v::{linorder,zero}) db \<Rightarrow> 'v top_row list" where
  "top_candidates E d = filter (\<lambda>r. 0 < tc_revenue r) (top_groups E d)"

text \<open>\<^verbatim>\<open>ORDER BY revenue DESC LIMIT 10\<close>\<close>

definition top_customers :: "'v engine \<Rightarrow> ('v::{linorder,zero}) db \<Rightarrow> 'v top_row list" where
  "top_customers E d =
     take 10 (order_desc tc_revenue (\<lambda>r. top_tiebreak E (tc_customer_id r))
                (top_candidates E d))"

subsection \<open>monthly_revenue\<close>

record 'v month_row =
  mr_ym :: "string option"
  mr_revenue :: 'v

text \<open>
  \<^verbatim>\<open>SELECT strftime('%Y-%m', o.order_date) AS ym, SUM(...) FROM orders o GROUP BY ym
  ORDER BY ym\<close>
\<close>

definition monthly_revenue :: "'v engine \<Rightarrow> ('v::{linorder,zero}) db \<Rightarrow> 'v month_row list" where
  "monthly_revenue E d =
     sort_key mr_ym
       (map (\<lambda>(k, g). \<lparr>mr_ym = k, mr_revenue = sum_of E (map paid_amount g)\<rparr>)
            (group_by (\<lambda>x. strftime_ym E (order_date x)) (orders d)))"

subsection \<open>category_city_matrix\<close>

record 'v matrix_row =
  m_city :: "string option"
  m_category :: string
  m_revenue :: 'v

definition category_city_matrix ::
  "'v engine \<Rightarrow> ('v::{linorder,zero}) db \<Rightarrow> 'v matrix_row list" where
  "category_city_matrix E d =
     sort_key (\<lambda>r. (m_city r, m_category r))
       (map (\<lambda>((cty, cat), g).
               \<lparr>m_city = cty, m_category = cat,
                m_revenue = sum_of E (map (paid_amount \<circ> snd) g)\<rparr>)
            (group_by (\<lambda>(c, x). (city c, category x)) (join_rows d)))"

subsection \<open>window_rank_in_city\<close>

text \<open>
  The rows of the inner \<^verbatim>\<open>SELECT\<close> after \<^verbatim>\<open>GROUP BY c.city, c.customer_id\<close>, one per group,
  with the key of the group. The bare column \<^verbatim>\<open>customer\<close> is read from a row of the
  group (all of them carry the same customer); a group is never empty.
\<close>

record 'v city_group =
  g_city :: "string option"
  g_customer_id :: int
  g_customer :: string
  g_revenue :: 'v

definition window_groups :: "'v engine \<Rightarrow> ('v::{linorder,zero}) db \<Rightarrow> 'v city_group list" where
  "window_groups E d =
     concat (map (\<lambda>((cty, cid), g).
               case g of
                 [] \<Rightarrow> []
               | (c, x) # _ \<Rightarrow>
                   [\<lparr>g_city = cty, g_customer_id = cid, g_customer = customer_name c,
                     g_revenue = sum_of E (map (paid_amount \<circ> snd) g)\<rparr>])
            (group_by (\<lambda>(c, x). (city c, customer_id c)) (join_rows d)))"

text \<open>
  \<^verbatim>\<open>ROW_NUMBER() OVER (PARTITION BY c.city ORDER BY SUM(...) DESC)\<close>: within each partition
  the rows are sorted and numbered from 1.
\<close>

definition window_numbered ::
  "'v engine \<Rightarrow> ('v::{linorder,zero}) db \<Rightarrow> (nat \<times> 'v city_group) list" where
  "window_numbered E d =
     concat (map (\<lambda>(cty, part).
                    enumerate 1 (order_desc g_revenue
                                   (\<lambda>g. window_tiebreak E (g_customer_id g)) part))
                 (group_by g_city (window_groups E d)))"

record 'v rank_row =
  wr_city :: "string option"
  wr_customer :: string
  wr_revenue :: 'v
  wr_rn :: nat

text \<open>The subquery \<^verbatim>\<open>t\<close>: the columns city, customer, revenue, rn.\<close>

definition window_ranked :: "'v engine \<Rightarrow> ('v::{linorder,zero}) db \<Rightarrow> 'v rank_row list" where
  "window_ranked E d =
     map (\<lambda>(n, g). \<lparr>wr_city = g_city g, wr_customer = g_customer g,
                    wr_revenue = g_revenue g, wr_rn = n\<rparr>)
         (window_numbered E d)"

text \<open>\<^verbatim>\<open>WHERE rn <= 3 ORDER BY city, rn\<close>\<close>

definition window_rank_in_city ::
  "'v engine \<Rightarrow> ('v::{linorder,zero}) db \<Rightarrow> 'v rank_row list" where
  "window_rank_in_city E d =
     sort_key (\<lambda>r. (wr_city r, wr_rn r)) (filter (\<lambda>r. wr_rn r \<le> 3) (window_ranked E d))"

section \<open>What the specification calls a customer's revenue\<close>

text \<open>
  The specification's words: the revenue of a customer is the sum of amount over that
  customer's orders, counting only the orders with status PAID; a CANCELLED or REFUNDED
  order contributes zero. \<open>counted\<close> is what an order contributes, \<open>customer_orders\<close>
  the orders that a customer owns, in the order of their table.
\<close>

definition counted :: "('v::zero) order \<Rightarrow> 'v" where
  "counted x = (if status x = ''PAID'' then amount x else 0)"

definition customer_orders :: "'v db \<Rightarrow> int \<Rightarrow> 'v order list" where
  "customer_orders d cid = filter (\<lambda>x. o_customer_id x = cid) (orders d)"

definition customer_revenue :: "'v engine \<Rightarrow> ('v::zero) db \<Rightarrow> int \<Rightarrow> 'v" where
  "customer_revenue E d cid = sum_of E (map counted (customer_orders d cid))"

definition has_orders :: "'v db \<Rightarrow> customer \<Rightarrow> bool" where
  "has_orders d c \<longleftrightarrow> customer_orders d (customer_id c) \<noteq> []"

text \<open>The row that top_customers shows for a customer.\<close>

definition top_row_of :: "'v engine \<Rightarrow> ('v::zero) db \<Rightarrow> customer \<Rightarrow> 'v top_row" where
  "top_row_of E d c =
     \<lparr>tc_customer_id = customer_id c, tc_customer = customer_name c, tc_city = city c,
      tc_revenue = customer_revenue E d (customer_id c)\<rparr>"

text \<open>The grouped row of window_rank_in_city for a customer.\<close>

definition group_of :: "'v engine \<Rightarrow> ('v::zero) db \<Rightarrow> customer \<Rightarrow> 'v city_group" where
  "group_of E d c =
     \<lparr>g_city = city c, g_customer_id = customer_id c, g_customer = customer_name c,
      g_revenue = customer_revenue E d (customer_id c)\<rparr>"

text \<open>The customers of a city (NULL is a city of its own) that own at least one order.\<close>

definition city_customers :: "'v db \<Rightarrow> string option \<Rightarrow> customer list" where
  "city_customers d k = filter (\<lambda>c. city c = k \<and> has_orders d c) (customers d)"

text \<open>
  The groups of window_rank_in_city for the customers of a city, in the order of the
  window: descending revenue.
\<close>

definition city_ranking ::
  "'v engine \<Rightarrow> ('v::{linorder,zero}) db \<Rightarrow> string option \<Rightarrow> 'v city_group list" where
  "city_ranking E d k =
     order_desc g_revenue (\<lambda>g. window_tiebreak E (g_customer_id g))
       (filter (\<lambda>g. g_city g = k) (window_groups E d))"

section \<open>Month texts\<close>

text \<open>
  A month text is \<^verbatim>\<open>YYYY-MM\<close>: four digits, a dash and a month from 01 to 12.
  \<open>month_index\<close> is the number of the month that it names, counted from year 0: what
  chronological order compares.
\<close>

definition is_digit :: "char \<Rightarrow> bool" where
  "is_digit c \<longleftrightarrow> c \<in> set ''0123456789''"

definition digit_of :: "char \<Rightarrow> nat" where
  "digit_of c = of_char c - 48"

definition number_of :: "string \<Rightarrow> nat" where
  "number_of cs = foldl (\<lambda>n c. 10 * n + digit_of c) 0 cs"

definition month_text :: "string \<Rightarrow> bool" where
  "month_text t =
     (case t of
        [y1, y2, y3, y4, s, m1, m2] \<Rightarrow>
          list_all is_digit [y1, y2, y3, y4, m1, m2] \<and> s = CHR ''-'' \<and>
          1 \<le> number_of [m1, m2] \<and> number_of [m1, m2] \<le> 12
      | _ \<Rightarrow> False)"

definition month_index :: "string \<Rightarrow> nat" where
  "month_index t =
     (case t of
        [y1, y2, y3, y4, s, m1, m2] \<Rightarrow> 12 * number_of [y1, y2, y3, y4] + number_of [m1, m2]
      | _ \<Rightarrow> 0)"

section \<open>An engine for the example stores\<close>

text \<open>
  The examples below need values of the library's functions. These tables hold the part
  of them that is used there, and that every version of SQLite agrees on; a table
  answers \<open>None\<close> where it does not say what SQLite returns.

  \<^item> The examples hold whole amounts, so their values are of type \<open>int\<close>. \<^verbatim>\<open>SUM\<close> over whole
    numbers whose absolute values add up to at most \<open>2^53\<close> is their exact sum: no
    addition of doubles rounds.
  \<^item> \<^verbatim>\<open>strftime('%Y-%m', s)\<close> is the first seven characters of \<open>s\<close> when \<open>s\<close> is a calendar
    date \<^verbatim>\<open>YYYY-MM-DD\<close> (a day that its month has), and NULL when \<open>s\<close> holds a slash, which
    no time value does. SQLite reads a text up to its first NUL character, so the slash
    counts when it comes before any NUL.
  \<^item> An integer of absolute value up to \<open>2^53\<close> is stored in a \<^verbatim>\<open>REAL\<close> column unchanged.
\<close>

definition sum_known :: "int list \<Rightarrow> int option" where
  "sum_known vs =
     (if vs \<noteq> [] \<and> sum_list (map abs vs) \<le> 9007199254740992 then Some (sum_list vs)
      else None)"

definition leap_year :: "nat \<Rightarrow> bool" where
  "leap_year y \<longleftrightarrow> (y mod 4 = 0 \<and> y mod 100 \<noteq> 0) \<or> y mod 400 = 0"

definition days_in_month :: "nat \<Rightarrow> nat \<Rightarrow> nat" where
  "days_in_month y m =
     (if m = 2 then (if leap_year y then 29 else 28)
      else if m \<in> {4, 6, 9, 11} then 30 else 31)"

definition calendar_date :: "string \<Rightarrow> bool" where
  "calendar_date s =
     (case s of
        [y1, y2, y3, y4, s1, m1, m2, s2, d1, d2] \<Rightarrow>
          list_all is_digit [y1, y2, y3, y4, m1, m2, d1, d2] \<and>
          s1 = CHR ''-'' \<and> s2 = CHR ''-'' \<and>
          1 \<le> number_of [m1, m2] \<and> number_of [m1, m2] \<le> 12 \<and>
          1 \<le> number_of [d1, d2] \<and>
          number_of [d1, d2] \<le> days_in_month (number_of [y1, y2, y3, y4]) (number_of [m1, m2])
      | _ \<Rightarrow> False)"

definition strftime_known :: "string \<Rightarrow> string option option" where
  "strftime_known s =
     (if calendar_date s then Some (Some (take 7 s))
      else if CHR ''/'' \<in> set (takeWhile (\<lambda>c. c \<noteq> CHR 0x00) s) then Some None
      else None)"

definition int_to_real_known :: "int \<Rightarrow> int option" where
  "int_to_real_known i = (if \<bar>i\<bar> \<le> 9007199254740992 then Some i else None)"

text \<open>
  The engine of the examples answers from the tables. Outside them, and for the random
  rowid and the order of ties, it is left unspecified: an example that depended on such
  a value could not be evaluated.
\<close>

definition example_engine :: "int engine" where
  "example_engine =
     \<lparr>sum_of = (\<lambda>vs. case sum_known vs of Some v \<Rightarrow> v | None \<Rightarrow> undefined),
      strftime_ym = (\<lambda>s. case strftime_known s of Some t \<Rightarrow> t | None \<Rightarrow> undefined),
      int_to_real = (\<lambda>i. case int_to_real_known i of Some v \<Rightarrow> v | None \<Rightarrow> undefined),
      random_rowid = undefined,
      top_tiebreak = undefined,
      window_tiebreak = undefined\<rparr>"

text \<open>An engine agrees with the tables when it returns what they hold.\<close>

definition agrees_with_tables :: "int engine \<Rightarrow> bool" where
  "agrees_with_tables E \<longleftrightarrow>
     (\<forall>vs v. sum_known vs = Some v \<longrightarrow> sum_of E vs = v) \<and>
     (\<forall>s t. strftime_known s = Some t \<longrightarrow> strftime_ym E s = t) \<and>
     (\<forall>i v. int_to_real_known i = Some v \<longrightarrow> int_to_real E i = v)"

section \<open>Example stores\<close>

definition mk_customer :: "int \<Rightarrow> string \<Rightarrow> string \<Rightarrow> string \<Rightarrow> string option \<Rightarrow> customer" where
  "mk_customer i f l e ci =
     \<lparr>customer_id = i, first_name = f, last_name = l, email = e, city = ci,
      signup_date = ''2023-01-01''\<rparr>"

definition mk_order :: "int \<Rightarrow> int \<Rightarrow> string \<Rightarrow> string \<Rightarrow> int \<Rightarrow> string \<Rightarrow> int order" where
  "mk_order i cid od cat a st =
     \<lparr>order_id = i, o_customer_id = cid, order_date = od, category = cat, amount = a,
      status = st\<rparr>"

text \<open>
  Two customers with PAID sums 50 and 100, each with larger CANCELLED and REFUNDED
  orders, a customer whose only order is REFUNDED, and a customer who owns no order.
\<close>

definition two_paid_db :: "int db" where
  "two_paid_db =
     \<lparr>customers = [mk_customer 1 ''Luis'' ''Rojas'' ''luis@example.com'' (Some ''Santiago''),
                   mk_customer 2 ''Ana'' ''Soto'' ''ana@example.com'' (Some ''La Serena''),
                   mk_customer 3 ''Carla'' ''Silva'' ''carla@example.com'' None,
                   mk_customer 4 ''Pedro'' ''Silva'' ''pedro@example.com'' (Some ''Santiago'')],
      orders = [mk_order 1 1 ''2024-01-15'' ''Books'' 50 ''PAID'',
                mk_order 2 1 ''2024-01-16'' ''Home'' 900 ''CANCELLED'',
                mk_order 3 2 ''2024-01-17'' ''Books'' 60 ''PAID'',
                mk_order 4 2 ''2024-02-17'' ''Home'' 40 ''PAID'',
                mk_order 5 2 ''2024-02-18'' ''Home'' 500 ''CANCELLED'',
                mk_order 6 1 ''2024-02-19'' ''Home'' 700 ''REFUNDED'',
                mk_order 7 4 ''2024-02-20'' ''Home'' 800 ''REFUNDED'']\<rparr>"

text \<open>Eleven customers with one PAID order each, of amounts 10, 20, ..., 110.\<close>

definition eleven_db :: "int db" where
  "eleven_db =
     \<lparr>customers = map (\<lambda>(i, f). mk_customer i f ''Soto'' (f @ ''@example.com'') (Some ''Santiago''))
                    [(1, ''Ana''), (2, ''Luis''), (3, ''Camila''), (4, ''Diego''),
                     (5, ''Matias''), (6, ''Carla''), (7, ''Javiera''), (8, ''Pedro''),
                     (9, ''Rosa''), (10, ''Hugo''), (11, ''Ines'')],
      orders = map (\<lambda>i. mk_order i i ''2024-01-15'' ''Books'' (10 * i) ''PAID'')
                 [1, 2, 3, 4, 5, 6, 7, 8, 9, 10, 11]\<rparr>"

text \<open>The two orders of the specification's example for monthly_revenue.\<close>

definition january_db :: "int db" where
  "january_db =
     \<lparr>customers = [mk_customer 1 ''Ana'' ''Soto'' ''ana@example.com'' (Some ''Santiago'')],
      orders = [mk_order 1 1 ''2024-01-15'' ''Books'' 10 ''PAID'',
                mk_order 2 1 ''2024-01-20'' ''Home'' 20 ''CANCELLED'']\<rparr>"

text \<open>The same with a month that has a REFUNDED order only, and a PAID order in March.\<close>

definition quarter_db :: "int db" where
  "quarter_db =
     \<lparr>customers = [mk_customer 1 ''Ana'' ''Soto'' ''ana@example.com'' (Some ''Santiago'')],
      orders = [mk_order 1 1 ''2024-03-02'' ''Books'' 7 ''PAID'',
                mk_order 2 1 ''2024-01-15'' ''Books'' 10 ''PAID'',
                mk_order 3 1 ''2024-02-10'' ''Home'' 30 ''REFUNDED'',
                mk_order 4 1 ''2024-01-20'' ''Home'' 20 ''CANCELLED'']\<rparr>"

text \<open>An order whose date is written day first, which SQLite does not read as a date.\<close>

definition day_first_db :: "int db" where
  "day_first_db =
     \<lparr>customers = [mk_customer 1 ''Ana'' ''Soto'' ''ana@example.com'' (Some ''Santiago'')],
      orders = [mk_order 1 1 ''15/01/2024'' ''Books'' 5 ''PAID'',
                mk_order 2 1 ''2024-01-20'' ''Home'' 10 ''PAID'']\<rparr>"

text \<open>
  A store with three customers in Santiago who own orders (two of them called Ana Soto),
  one customer without a city, and one customer in Arica who owns no order.
\<close>

definition shop_db :: "int db" where
  "shop_db =
     \<lparr>customers = [mk_customer 1 ''Ana'' ''Soto'' ''ana.soto@example.com'' (Some ''Santiago''),
                   mk_customer 2 ''Luis'' ''Rojas'' ''luis@example.com'' (Some ''Santiago''),
                   mk_customer 3 ''Ana'' ''Soto'' ''ana.soto2@example.com'' (Some ''Santiago''),
                   mk_customer 4 ''Carla'' ''Silva'' ''carla@example.com'' None,
                   mk_customer 5 ''Diego'' ''Rojas'' ''diego@example.com'' (Some ''Arica'')],
      orders = [mk_order 1 1 ''2024-01-15'' ''Books'' 10 ''PAID'',
                mk_order 2 2 ''2024-01-20'' ''Books'' 20 ''PAID'',
                mk_order 3 3 ''2024-02-15'' ''Home'' 30 ''PAID'',
                mk_order 4 1 ''2024-03-15'' ''Home'' 400 ''CANCELLED'',
                mk_order 5 4 ''2024-03-01'' ''Home'' 7 ''PAID'',
                mk_order 6 4 ''2024-03-15'' ''Books'' 8 ''REFUNDED'',
                mk_order 7 4 ''2024-03-16'' ''Home'' 9 ''CANCELLED'',
                mk_order 8 3 ''2024-03-17'' ''Home'' 300 ''REFUNDED'']\<rparr>"

text \<open>
  Four customers of one city with PAID revenues 40, 30, 20 and 10; the two with the
  least revenue also have a CANCELLED and a REFUNDED order of larger amounts.
\<close>

definition four_db :: "int db" where
  "four_db =
     \<lparr>customers = [mk_customer 1 ''Ana'' ''Soto'' ''ana@example.com'' (Some ''Santiago''),
                   mk_customer 2 ''Luis'' ''Rojas'' ''luis@example.com'' (Some ''Santiago''),
                   mk_customer 3 ''Camila'' ''Silva'' ''camila@example.com'' (Some ''Santiago''),
                   mk_customer 4 ''Pedro'' ''Silva'' ''pedro@example.com'' (Some ''Santiago'')],
      orders = [mk_order 1 1 ''2024-01-15'' ''Books'' 40 ''PAID'',
                mk_order 2 2 ''2024-01-20'' ''Books'' 30 ''PAID'',
                mk_order 3 3 ''2024-02-15'' ''Home'' 20 ''PAID'',
                mk_order 4 4 ''2024-02-15'' ''Home'' 10 ''PAID'',
                mk_order 5 4 ''2024-02-16'' ''Home'' 500 ''CANCELLED'',
                mk_order 6 3 ''2024-02-17'' ''Home'' 600 ''REFUNDED'']\<rparr>"

definition one_customer_db :: "int db" where
  "one_customer_db =
     \<lparr>customers = [mk_customer 1 ''Ana'' ''Soto'' ''ana@example.com'' (Some ''Santiago'')],
      orders = []\<rparr>"

text \<open>Batches of order rows for the store with one customer.\<close>

definition paid_row :: "int \<Rightarrow> int order_row" where
  "paid_row a = (Some 1, Some ''2024-01-15'', Some ''Books'', Some (PyFloat a), Some ''PAID'')"

definition orphan_row :: "int order_row" where
  "orphan_row = (Some 99, Some ''2024-01-16'', Some ''Home'', Some (PyFloat 20), Some ''PAID'')"






definition ana_row :: customer_row where
  "ana_row =
     (Some ''Ana'', Some ''Soto'', Some ''ana@example.com'', Some ''Santiago'',
      Some ''2023-01-01'')"

section \<open>Evaluation of the examples\<close>

text \<open>
  The examples are evaluated by rewriting. Sorting is evaluated by insertion, the
  definition of \<open>sort_key\<close>, which compares the keys of different rows only.
\<close>

declare sort_key_def [code]


section \<open>Properties of the write path\<close>

lemma fold_max_ge: "(i::int) \<le> fold max js i \<and> (\<forall>j\<in>set js. j \<le> fold max js i)"
proof (induction js arbitrary: i)
  case Nil
  show ?case by simp
next
  case (Cons j js)
  have a: "max j i \<le> fold max js (max j i)" and b: "\<forall>x\<in>set js. x \<le> fold max js (max j i)"
    using Cons.IH [of "max j i"] by simp_all
  show ?case using a b by auto
qed

lemma next_rowid_fresh:
  assumes "fresh_rowids E"
  shows "next_rowid E ids \<notin> set ids"
proof (cases ids)
  case Nil
  then show ?thesis by (simp add: next_rowid_def)
next
  case (Cons i js)
  show ?thesis
  proof (cases "fold max js i = 9223372036854775807")
    case True
    then have "next_rowid E ids = random_rowid E ids"
      using Cons by (simp add: next_rowid_def)
    then show ?thesis using assms by (simp add: fresh_rowids_def)
  next
    case False
    then have "\<forall>j\<in>set ids. j < next_rowid E ids"
      using fold_max_ge [of i js] Cons by (auto simp: next_rowid_def)
    then show ?thesis by blast
  qed
qed

lemma primary_key_ok_empty: "primary_key_ok empty_db"
  by (simp add: primary_key_ok_def empty_db_def)

lemma insert_customer_primary_key:
  "fresh_rowids E \<Longrightarrow> insert_customer E d r = Inr d' \<Longrightarrow> primary_key_ok d \<Longrightarrow>
   primary_key_ok d'"
  using next_rowid_fresh [of E "map customer_id (customers d)"]
  by (auto simp: insert_customer_def primary_key_ok_def
      split: prod.splits option.splits if_splits)

lemma insert_order_customers:
  "insert_order E fk d r = Inr d' \<Longrightarrow> customers d' = customers d"
  by (auto simp: insert_order_def split: prod.splits option.splits if_splits)



text \<open>A property that every successful statement keeps holds of the working state.\<close>

lemma executemany_invariant:
  assumes "\<And>d r d'. stmt d r = Inr d' \<Longrightarrow> P d \<Longrightarrow> P d'" and "P d"
  shows "P (fst (executemany stmt d rows))"
  using assms(2)
proof (induction rows arbitrary: d)
  case Nil
  then show ?case by simp
next
  case (Cons r rows)
  show ?case
  proof (cases "stmt d r")
    case (Inl e)
    then show ?thesis using Cons.prems by simp
  next
    case (Inr d')
    then show ?thesis using Cons.IH [of d'] assms(1) [OF Inr Cons.prems] by simp
  qed
qed


lemma with_conn_rollback:
  "snd (body (foreign_keys c) (store c)) = Some e \<Longrightarrow> with_conn c body = (c, Some e)"
  by (cases "body (foreign_keys c) (store c)") (simp add: with_conn_def)

lemma with_conn_commit:
  "body (foreign_keys c) (store c) = (d', None) \<Longrightarrow> with_conn c body = (c\<lparr>store := d'\<rparr>, None)"
  by (simp add: with_conn_def)

lemma load_customers_primary_key:
  assumes "fresh_rowids E" and "primary_key_ok (store c)"
  shows "primary_key_ok (store (fst (load_customers E c rows)))"
proof (cases "executemany (insert_customer E) (store c) rows")
  case (Pair d' e)
  have "primary_key_ok (fst (executemany (insert_customer E) (store c) rows))"
    by (rule executemany_invariant [where P = primary_key_ok])
       (auto intro: insert_customer_primary_key assms)
  then show ?thesis
    using Pair assms by (cases e) (simp_all add: load_customers_def with_conn_def)
qed

lemma load_orders_customers:
  "customers (store (fst (load_orders E c rows))) = customers (store c)"
proof (cases "executemany (insert_order E (foreign_keys c)) (store c) rows")
  case (Pair d' e)
  have "customers (fst (executemany (insert_order E (foreign_keys c)) (store c) rows))
        = customers (store c)"
    by (rule executemany_invariant [where P = "\<lambda>x. customers x = customers (store c)"])
       (auto simp: insert_order_customers)
  then show ?thesis
    using Pair by (cases e) (simp_all add: load_orders_def with_conn_def)
qed

subsection \<open>The transaction demo\<close>

lemma insert_customer_twice:
  "insert_customer E d (temporal_row today) = Inr d1 \<Longrightarrow>
   insert_customer E d1 (temporal_row today) = Inl (IntegrityError UniqueFailed)"
  by (auto simp: insert_customer_def temporal_row_def split: if_splits)

lemma insert_customer_temporal_cases:
  "insert_customer E d (temporal_row today) = Inl (IntegrityError UniqueFailed) \<or>
   (\<exists>d1. insert_customer E d (temporal_row today) = Inr d1)"
  by (auto simp: insert_customer_def temporal_row_def split: if_splits)

text \<open>
  In a store that does not hold the demo's email yet, the first insert goes through, the
  working state has one customer more, and it is the second insert that fails.
\<close>

lemma demo_first_insert_then_failure:
  assumes "''temporal@example.com'' \<notin> set (map email (customers d))"
  shows "\<exists>d1. insert_customer E d (temporal_row today) = Inr d1 \<and>
           length (customers d1) = Suc (length (customers d)) \<and>
           insert_customer E d1 (temporal_row today) = Inl (IntegrityError UniqueFailed)"
  using assms by (simp add: insert_customer_def temporal_row_def)

text \<open>
  C5. Whatever the store holds before, the demo ends with the connection it started with:
  the \<^verbatim>\<open>UNIQUE\<close> violation is caught as an \<^verbatim>\<open>IntegrityError\<close>, the transaction is rolled
  back with everything it inserted, so the customers table (and its count) is the one
  from before, and the count-by-city read that follows is the count of the prior state.
\<close>

theorem demo_tx_rolls_back:
  "demo_tx_and_params E c today =
     Inr (c, Some (IntegrityError UniqueFailed),
          count_customers_in_city (store c) ''Santiago'')"
proof -
  let ?body = "\<lambda>(fk::bool) d.
              case insert_customer E d (temporal_row today) of
                Inl e \<Rightarrow> (d, Some e)
              | Inr d1 \<Rightarrow>
                  (case insert_customer E d1 (temporal_row today) of
                     Inl e \<Rightarrow> (d1, Some e)
                   | Inr d2 \<Rightarrow> (d2, None))"
  have "snd (?body (foreign_keys c) (store c)) = Some (IntegrityError UniqueFailed)"
    using insert_customer_temporal_cases [of E "store c" today]
    by (auto simp: insert_customer_twice)
  then have "with_conn c ?body = (c, Some (IntegrityError UniqueFailed))"
    by (rule with_conn_rollback)
  then show ?thesis by (simp add: demo_tx_and_params_def)
qed

subsection \<open>Referential integrity\<close>

text \<open>With \<^verbatim>\<open>foreign_keys\<close> off, as on a raw connection, an orphan order is accepted.\<close>

lemma orphan_accepted_without_pragma:
  "snd (load_orders example_engine (sqlite3_connect one_customer_db) [orphan_row]) = None"
  by code_simp




subsection \<open>The status check\<close>




subsection \<open>The amount column\<close>

text \<open>
  C8 as stated fails: the schema declares \<^verbatim>\<open>amount REAL NOT NULL\<close> and nothing more. From
  the empty store, loading one customer and then one PAID order of amount -5 succeeds,
  and the orders table then holds an amount that is not positive.
\<close>

theorem negative_amount_accepted_counterexample:
  "snd (load_orders example_engine
          (fst (load_customers example_engine (connect empty_db) [ana_row]))
          [paid_row (- 5)]) = None
   \<and> map amount (orders (store (fst (load_orders example_engine
          (fst (load_customers example_engine (connect empty_db) [ana_row]))
          [paid_row (- 5)]))))
     = [- 5]"
  by code_simp

text \<open>
  C8, amended. Every order row accepted into the store has an amount that is not NULL,
  and the store does not require it to be positive. An order whose amount is NULL,
  given as \<^verbatim>\<open>None\<close> or as NaN, is rejected at write time. Whether an order with a
  \<^verbatim>\<open>float\<close> amount is accepted does not depend on the amount, and an accepted \<^verbatim>\<open>float\<close>
  amount is stored as it is, so the rows of orders may hold zero and negative amounts.
\<close>

theorem insert_order_amount_unchecked:
  "isl (insert_order E fk d (cid, od, cat, None, st)) \<and>
   isl (insert_order E fk d (cid, od, cat, Some PyNaN, st)) \<and>
   (bindable (cid, od, cat, None, st) \<longrightarrow>
      insert_order E fk d (cid, od, cat, None, st) = Inl (IntegrityError NotNull) \<and>
      insert_order E fk d (cid, od, cat, Some PyNaN, st) = Inl (IntegrityError NotNull)) \<and>
   (isl (insert_order E fk d (cid, od, cat, Some (PyFloat a), st))
      \<longleftrightarrow> isl (insert_order E fk d (cid, od, cat, Some (PyFloat a'), st))) \<and>
   (\<forall>d'. insert_order E fk d (cid, od, cat, Some (PyFloat a), st) = Inr d' \<longrightarrow>
      (\<exists>row. orders d' = orders d @ [row] \<and> amount row = a))"
  by (auto simp: insert_order_def bindable_def real_value_def split: option.splits)

theorem insert_order_amount_unchecked_witness:
  "bindable (Some 1, Some ''2024-01-15'', Some ''Books'', (None :: int py_number option), Some ''PAID'')
   \<and> insert_order example_engine True one_customer_db
      (Some 1, Some ''2024-01-15'', Some ''Books'', None, Some ''PAID'')
     = Inl (IntegrityError NotNull)
   \<and> insert_order example_engine True one_customer_db
      (Some 1, Some ''2024-01-15'', Some ''Books'', Some PyNaN, Some ''PAID'')
     = Inl (IntegrityError NotNull)
   \<and> (isl (insert_order example_engine True one_customer_db (paid_row (- 5)))
      \<longleftrightarrow> isl (insert_order example_engine True one_customer_db (paid_row 7)))
   \<and> (\<exists>d' row. insert_order example_engine True one_customer_db (paid_row (- 5)) = Inr d'
      \<and> orders d' = orders one_customer_db @ [row] \<and> amount row = - 5)"
proof -
  have b: "bindable (Some 1, Some ''2024-01-15'', Some ''Books'', (None :: int py_number option), Some ''PAID'')"
    by (simp add: bindable_def int64_def)
  have ok: "\<exists>d'. insert_order example_engine True one_customer_db (paid_row (- 5)) = Inr d'"
    by (simp add: insert_order_def one_customer_db_def STATUSES_def paid_row_def
        bindable_def int64_def real_value_def mk_customer_def)
  show ?thesis
    using b ok insert_order_amount_unchecked [of example_engine True one_customer_db "Some 1"
        "Some ''2024-01-15''" "Some ''Books''" "Some ''PAID''" "- 5" 7]
    unfolding paid_row_def by blast
qed

section \<open>Properties of the query catalog\<close>

subsection \<open>Grouping, ordering and the join\<close>

lemma group_by_keys: "map fst (group_by key rows) = sort (remdups (map key rows))"
  by (simp add: group_by_def comp_def)

lemma group_by_distinct: "distinct (map fst (group_by key rows))"
  by (simp add: group_by_keys)

lemma group_by_sorted: "sorted (map fst (group_by key rows))"
  by (simp add: group_by_keys)

lemma group_by_mem:
  "(k, g) \<in> set (group_by key rows) \<longleftrightarrow> k \<in> key ` set rows \<and> g = filter (\<lambda>r. key r = k) rows"
  by (auto simp: group_by_def)

lemma group_by_nonempty: "(k, g) \<in> set (group_by key rows) \<Longrightarrow> g \<noteq> []"
  by (auto simp: group_by_mem filter_empty_conv)

lemma paid_counted: "paid_amount = counted"
  by (rule ext) (simp add: paid_amount_def counted_def)

text \<open>
  Where sums are exact, counting zero for the orders that are not PAID is summing the
  amounts of the PAID orders only.
\<close>

lemma counted_sum_exact:
  fixes xs :: "('v::monoid_add) order list"
  shows "sum_list (map counted xs)
       = sum_list (map amount (filter (\<lambda>x. status x = ''PAID'') xs))"
  by (induction xs) (simp_all add: counted_def)

lemma set_order_desc: "set (order_desc f t xs) = set xs"
  by (simp add: order_desc_def)

lemma length_order_desc: "length (order_desc f t xs) = length xs"
  by (simp add: order_desc_def)

lemma mset_order_desc: "mset (order_desc f t xs) = mset xs"
  by (simp add: order_desc_def)

lemma distinct_order_desc: "distinct (map g (order_desc f t xs)) = distinct (map g xs)"
proof -
  have "mset (map g (order_desc f t xs)) = mset (map g xs)"
    by (simp add: mset_order_desc)
  then show ?thesis by (rule mset_eq_imp_distinct_iff)
qed

lemma filter_order_desc: "filter P (order_desc f t xs) = order_desc f t (filter P xs)"
  by (simp add: order_desc_def rev_filter [symmetric] filter_sort)

lemma sorted_order_desc: "sorted_wrt (\<lambda>a b. f b \<le> f a) (order_desc f t xs)"
proof -
  let ?K = "\<lambda>r. (f r, - t r)"
  have "sorted (map ?K (sort_key ?K xs))"
    by (rule sorted_sort_key)
  then have "sorted_wrt (\<lambda>a b. ?K a \<le> ?K b) (sort_key ?K xs)"
    by (simp only: sorted_map)
  then have "sorted_wrt (\<lambda>a b. f a \<le> f b) (sort_key ?K xs)"
    by (rule sorted_wrt_mono_rel [rotated]) (auto simp: less_eq_prod_def)
  then show ?thesis
    unfolding order_desc_def by (simp add: sorted_wrt_rev)
qed

lemma map_order_desc: "map f (order_desc f t xs) = rev (sort (map f xs))"
proof -
  let ?K = "\<lambda>r. (f r, - t r)"
  let ?ys = "map f (sort_key ?K xs)"
  have "sorted_wrt (\<lambda>a b. f b \<le> f a) (rev (sort_key ?K xs))"
    using sorted_order_desc [of f t xs] by (simp add: order_desc_def)
  then have "sorted_wrt (\<lambda>a b. f a \<le> f b) (sort_key ?K xs)"
    by (simp add: sorted_wrt_rev)
  then have "sorted ?ys"
    by (simp only: sorted_map)
  moreover have "mset ?ys = mset (map f xs)"
    by simp
  ultimately have "sort (map f xs) = ?ys"
    by (metis properties_for_sort)
  then show ?thesis by (simp add: order_desc_def rev_map)
qed

lemma join_rows_mem:
  "(c, x) \<in> set (join_rows d) \<longleftrightarrow>
     c \<in> set (customers d) \<and> x \<in> set (orders d) \<and> o_customer_id x = customer_id c"
  by (force simp: join_rows_def)

lemma filter_removeAll: "\<not> P c0 \<Longrightarrow> filter P (removeAll c0 cs) = filter P cs"
  by (induction cs) auto

lemma join_rows_remove:
  assumes "\<not> has_orders d c0"
  shows "join_rows (d\<lparr>customers := removeAll c0 (customers d)\<rparr>) = join_rows d"
proof -
  have "filter (\<lambda>c. customer_id c = o_customer_id x) (removeAll c0 (customers d))
      = filter (\<lambda>c. customer_id c = o_customer_id x) (customers d)"
    if "x \<in> set (orders d)" for x
  proof (rule filter_removeAll)
    show "customer_id c0 \<noteq> o_customer_id x"
      using assms that
      by (auto simp: has_orders_def customer_orders_def filter_empty_conv)
  qed
  then show ?thesis
    by (simp add: join_rows_def cong: map_cong)
qed

lemma top_customers_join:
  "join_rows d' = join_rows d \<Longrightarrow> top_customers E d' = top_customers E d"
  by (simp add: top_customers_def top_candidates_def top_groups_def)

lemma category_city_matrix_join:
  "join_rows d' = join_rows d \<Longrightarrow> category_city_matrix E d' = category_city_matrix E d"
  by (simp add: category_city_matrix_def)

lemma window_rank_in_city_join:
  "join_rows d' = join_rows d \<Longrightarrow> window_rank_in_city E d' = window_rank_in_city E d"
  by (simp add: window_rank_in_city_def window_ranked_def window_numbered_def window_groups_def)

lemma top_candidates_ids:
  "r \<in> set (top_candidates E d) \<Longrightarrow>
     \<exists>c x. (c, x) \<in> set (join_rows d) \<and> tc_customer_id r = customer_id c"
  by (auto simp: top_candidates_def top_groups_def group_by_mem) blast

lemma top_customers_subset: "set (top_customers E d) \<subseteq> set (top_candidates E d)"
  unfolding top_customers_def
  using set_take_subset [of 10 "order_desc tc_revenue (\<lambda>r. top_tiebreak E (tc_customer_id r))
                                  (top_candidates E d)"]
  by (simp add: set_order_desc)

lemma window_groups_ids:
  "g \<in> set (window_groups E d) \<Longrightarrow>
     \<exists>c x. (c, x) \<in> set (join_rows d) \<and> g_customer_id g = customer_id c"
  by (auto simp: window_groups_def group_by_mem split: list.splits) blast

subsection \<open>Customers without orders\<close>

text \<open>
  C4. A customer who owns no order row is in no row of the join, so deleting that
  customer from the store changes none of the results of top_customers,
  category_city_matrix and window_rank_in_city; the customer's identity is the
  customer_id of no row of top_customers and of no group of window_rank_in_city.
\<close>

theorem customer_without_orders_invisible:
  assumes "\<not> has_orders d c0"
  shows "top_customers E (d\<lparr>customers := removeAll c0 (customers d)\<rparr>) = top_customers E d
       \<and> category_city_matrix E (d\<lparr>customers := removeAll c0 (customers d)\<rparr>)
           = category_city_matrix E d
       \<and> window_rank_in_city E (d\<lparr>customers := removeAll c0 (customers d)\<rparr>)
           = window_rank_in_city E d
       \<and> customer_id c0 \<notin> tc_customer_id ` set (top_customers E d)
       \<and> customer_id c0 \<notin> g_customer_id ` set (window_groups E d)
       \<and> c0 \<notin> fst ` set (join_rows d)"
proof -
  have j: "join_rows (d\<lparr>customers := removeAll c0 (customers d)\<rparr>) = join_rows d"
    by (rule join_rows_remove [OF assms])
  have none: "\<And>c x. (c, x) \<in> set (join_rows d) \<Longrightarrow> customer_id c \<noteq> customer_id c0"
    using assms by (auto simp: join_rows_mem has_orders_def customer_orders_def filter_empty_conv)
  have a: "customer_id c0 \<notin> tc_customer_id ` set (top_customers E d)"
  proof
    assume "customer_id c0 \<in> tc_customer_id ` set (top_customers E d)"
    then obtain r where r: "r \<in> set (top_customers E d)" "tc_customer_id r = customer_id c0"
      by auto
    have "r \<in> set (top_candidates E d)" using r(1) top_customers_subset by blast
    then obtain c x where cx: "(c, x) \<in> set (join_rows d)" "tc_customer_id r = customer_id c"
      using top_candidates_ids by blast
    have "customer_id c \<noteq> customer_id c0" using cx(1) by (rule none)
    then show False using cx(2) r(2) by simp
  qed
  have b: "customer_id c0 \<notin> g_customer_id ` set (window_groups E d)"
  proof
    assume "customer_id c0 \<in> g_customer_id ` set (window_groups E d)"
    then obtain g where g: "g \<in> set (window_groups E d)" "g_customer_id g = customer_id c0"
      by auto
    then obtain c x where cx: "(c, x) \<in> set (join_rows d)" "g_customer_id g = customer_id c"
      using window_groups_ids by blast
    have "customer_id c \<noteq> customer_id c0" using cx(1) by (rule none)
    then show False using cx(2) g(2) by simp
  qed
  have c: "c0 \<notin> fst ` set (join_rows d)"
    using none by force
  show ?thesis
    using a b c top_customers_join [OF j] category_city_matrix_join [OF j]
      window_rank_in_city_join [OF j]
    by simp
qed

lemma two_paid_top: "top_customers example_engine two_paid_db =
     [\<lparr>tc_customer_id = 2, tc_customer = ''Ana Soto'', tc_city = Some ''La Serena'',
       tc_revenue = 100\<rparr>,
      \<lparr>tc_customer_id = 1, tc_customer = ''Luis Rojas'', tc_city = Some ''Santiago'',
       tc_revenue = 50\<rparr>]"
  by code_simp

theorem customer_without_orders_invisible_witness:
  "\<not> has_orders two_paid_db (mk_customer 3 ''Carla'' ''Silva'' ''carla@example.com'' None)
   \<and> mk_customer 3 ''Carla'' ''Silva'' ''carla@example.com'' None \<in> set (customers two_paid_db)
   \<and> top_customers example_engine
        (two_paid_db\<lparr>customers := removeAll (mk_customer 3 ''Carla'' ''Silva'' ''carla@example.com'' None)
              (customers two_paid_db)\<rparr>)
       = top_customers example_engine two_paid_db
   \<and> 3 \<notin> tc_customer_id ` set (top_customers example_engine two_paid_db)
   \<and> 3 \<notin> g_customer_id ` set (window_groups example_engine two_paid_db)"
proof -
  let ?c = "mk_customer 3 ''Carla'' ''Silva'' ''carla@example.com'' None"
  have h: "\<not> has_orders two_paid_db ?c"
    by (simp add: has_orders_def customer_orders_def two_paid_db_def mk_customer_def mk_order_def)
  have m: "?c \<in> set (customers two_paid_db)"
    by (simp add: two_paid_db_def)
  have i: "customer_id ?c = 3"
    by (simp add: mk_customer_def)
  show ?thesis
    using customer_without_orders_invisible [OF h, of example_engine] h m i by simp
qed

lemma sorted_partition:
  assumes "sorted (map f xs)"
    and "\<And>x y. x \<in> set xs \<Longrightarrow> y \<in> set xs \<Longrightarrow> P x \<Longrightarrow> \<not> P y \<Longrightarrow> f x < f y"
  shows "xs = filter P xs @ filter (\<lambda>x. \<not> P x) xs"
  using assms
proof (induction xs)
  case Nil
  show ?case by simp
next
  case (Cons a xs)
  have ih: "xs = filter P xs @ filter (\<lambda>x. \<not> P x) xs"
    using Cons by simp
  show ?case
  proof (cases "P a")
    case True
    then show ?thesis using ih by simp
  next
    case False
    have "\<And>y. y \<in> set xs \<Longrightarrow> \<not> P y"
    proof
      fix y assume y: "y \<in> set xs" and py: "P y"
      have "f y < f a" using Cons.prems(2) [of y a] y py False by simp
      moreover have "f a \<le> f y" using Cons.prems(1) y by simp
      ultimately show False by simp
    qed
    then have "filter P xs = []" "filter (\<lambda>x. \<not> P x) xs = xs"
      by (simp_all add: filter_empty_conv filter_id_conv)
    then show ?thesis using False by simp
  qed
qed

subsection \<open>monthly_revenue\<close>

lemma monthly_revenue_groups:
  "monthly_revenue E d =
     map (\<lambda>(k, g). \<lparr>mr_ym = k, mr_revenue = sum_of E (map paid_amount g)\<rparr>)
         (group_by (\<lambda>x. strftime_ym E (order_date x)) (orders d))"
proof -
  let ?f = "\<lambda>(k, g). \<lparr>mr_ym = k, mr_revenue = sum_of E (map paid_amount g)\<rparr>"
  let ?G = "group_by (\<lambda>x. strftime_ym E (order_date x)) (orders d)"
  have "map mr_ym (map ?f ?G) = map fst ?G"
    by (simp add: comp_def case_prod_unfold)
  then have "sorted (map mr_ym (map ?f ?G))"
    by (simp only: group_by_sorted)
  then show ?thesis
    unfolding monthly_revenue_def by (rule sort_key_id_if_sorted)
qed

lemma monthly_revenue_ym:
  "map mr_ym (monthly_revenue E d)
     = map fst (group_by (\<lambda>x. strftime_ym E (order_date x)) (orders d))"
  by (simp add: monthly_revenue_groups comp_def case_prod_unfold)

text \<open>
  C3 as stated fails on a store that holds an order whose order_date SQLite does not
  read as a date: \<^verbatim>\<open>strftime\<close> gives NULL, and the result has a row whose month is NULL,
  which is no calendar month; the PAID amount of that order is counted in no month.
  The two dates of the store are in the table of \<^verbatim>\<open>strftime\<close>.
\<close>

theorem monthly_revenue_null_month_counterexample:
  "map (strftime_known \<circ> order_date) (orders day_first_db) = [Some None, Some (Some ''2024-01'')]
   \<and> monthly_revenue example_engine day_first_db =
     [\<lparr>mr_ym = None, mr_revenue = 5\<rparr>, \<lparr>mr_ym = Some ''2024-01'', mr_revenue = 10\<rparr>]"
  by code_simp

subsection \<open>Month texts and chronological order\<close>

lemma is_digit_char: "is_digit c \<Longrightarrow> (of_char c :: nat) = 48 + digit_of c \<and> digit_of c \<le> 9"
  by (auto simp: is_digit_def digit_of_def)

lemma digit_char_less:
  assumes "is_digit c" and "is_digit c'"
  shows "(c < c') = (digit_of c < digit_of c')" and "(c = c') = (digit_of c = digit_of c')"
proof -
  have a: "(of_char c :: nat) = 48 + digit_of c" and b: "(of_char c' :: nat) = 48 + digit_of c'"
    using assms is_digit_char by blast+
  show "(c < c') = (digit_of c < digit_of c')" using a b by (simp add: less_char_def)
  have "(c = c') = ((of_char c :: nat) = of_char c')" by simp
  then show "(c = c') = (digit_of c = digit_of c')" using a b by simp
qed

lemma lex_step:
  fixes a b a' b' :: nat
  assumes "b \<le> 9" and "b' \<le> 9"
  shows "(10 * a + b < 10 * a' + b') \<longleftrightarrow> (a < a' \<or> a = a' \<and> b < b')"
    and "(10 * a + b = 10 * a' + b') \<longleftrightarrow> (a = a' \<and> b = b')"
proof -
  consider "a < a'" | "a = a'" | "a' < a" by linarith
  then show "(10 * a + b < 10 * a' + b') \<longleftrightarrow> (a < a' \<or> a = a' \<and> b < b')"
    using assms by cases simp_all
  consider "a < a'" | "a = a'" | "a' < a" by linarith
  then show "(10 * a + b = 10 * a' + b') \<longleftrightarrow> (a = a' \<and> b = b')"
    using assms by cases simp_all
qed

lemma month_step:
  fixes y m y' m' :: nat
  assumes "1 \<le> m" "m \<le> 12" "1 \<le> m'" "m' \<le> 12"
  shows "(12 * y + m \<le> 12 * y' + m') \<longleftrightarrow> (y < y' \<or> y = y' \<and> m \<le> m')"
proof -
  consider "y < y'" | "y = y'" | "y' < y" by linarith
  then show ?thesis using assms by cases simp_all
qed

lemma ym_text_le:
  assumes a: "is_digit y1" "is_digit y2" "is_digit y3" "is_digit y4" "is_digit m1" "is_digit m2"
    and b: "is_digit z1" "is_digit z2" "is_digit z3" "is_digit z4" "is_digit n1" "is_digit n2"
    and ma: "1 \<le> number_of [m1, m2]" "number_of [m1, m2] \<le> 12"
    and mb: "1 \<le> number_of [n1, n2]" "number_of [n1, n2] \<le> 12"
  shows "[y1, y2, y3, y4, CHR ''-'', m1, m2] \<le> [z1, z2, z3, z4, CHR ''-'', n1, n2]
     \<longleftrightarrow> month_index [y1, y2, y3, y4, CHR ''-'', m1, m2]
           \<le> month_index [z1, z2, z3, z4, CHR ''-'', n1, n2]"
proof -
  define a1 a2 a3 a4 f1 f2 where "a1 = digit_of y1" and "a2 = digit_of y2"
    and "a3 = digit_of y3" and "a4 = digit_of y4" and "f1 = digit_of m1" and "f2 = digit_of m2"
  define b1 b2 b3 b4 g1 g2 where "b1 = digit_of z1" and "b2 = digit_of z2"
    and "b3 = digit_of z3" and "b4 = digit_of z4" and "g1 = digit_of n1" and "g2 = digit_of n2"
  note defs = a1_def a2_def a3_def a4_def f1_def f2_def b1_def b2_def b3_def b4_def g1_def g2_def
  have bd: "a2 \<le> 9" "a3 \<le> 9" "a4 \<le> 9" "f2 \<le> 9" "b2 \<le> 9" "b3 \<le> 9" "b4 \<le> 9" "g2 \<le> 9"
    unfolding defs using a b is_digit_char by blast+
  have c1: "(y1 < z1) = (a1 < b1)" "(y1 = z1) = (a1 = b1)"
    unfolding defs using digit_char_less [OF a(1) b(1)] by blast+
  have c2: "(y2 < z2) = (a2 < b2)" "(y2 = z2) = (a2 = b2)"
    unfolding defs using digit_char_less [OF a(2) b(2)] by blast+
  have c3: "(y3 < z3) = (a3 < b3)" "(y3 = z3) = (a3 = b3)"
    unfolding defs using digit_char_less [OF a(3) b(3)] by blast+
  have c4: "(y4 < z4) = (a4 < b4)" "(y4 = z4) = (a4 = b4)"
    unfolding defs using digit_char_less [OF a(4) b(4)] by blast+
  have c5: "(m1 < n1) = (f1 < g1)" "(m1 = n1) = (f1 = g1)"
    unfolding defs using digit_char_less [OF a(5) b(5)] by blast+
  have c6: "(m2 < n2) = (f2 < g2)" "(m2 = n2) = (f2 = g2)"
    unfolding defs using digit_char_less [OF a(6) b(6)] by blast+
  define Y where "Y = 10 * (10 * (10 * a1 + a2) + a3) + a4"
  define Y' where "Y' = 10 * (10 * (10 * b1 + b2) + b3) + b4"
  define M where "M = 10 * f1 + f2"
  define M' where "M' = 10 * g1 + g2"
  have L: "[y1, y2, y3, y4, CHR ''-'', m1, m2] \<le> [z1, z2, z3, z4, CHR ''-'', n1, n2]
     \<longleftrightarrow> (a1 < b1 \<or> a1 = b1 \<and> (a2 < b2 \<or> a2 = b2 \<and> (a3 < b3 \<or> a3 = b3 \<and>
           (a4 < b4 \<or> a4 = b4 \<and> (f1 < g1 \<or> f1 = g1 \<and> (f2 < g2 \<or> f2 = g2))))))"
    by (simp only: Cons_le_Cons c1 c2 c3 c4 c5 c6 Nil_le_Cons simp_thms order_refl less_irrefl)
  have Ylt: "(Y < Y') \<longleftrightarrow> (a1 < b1 \<or> a1 = b1 \<and> (a2 < b2 \<or> a2 = b2 \<and> (a3 < b3 \<or> a3 = b3 \<and> a4 < b4)))"
    unfolding Y_def Y'_def
    by (simp only: lex_step [OF bd(3) bd(7)] lex_step [OF bd(2) bd(6)] lex_step [OF bd(1) bd(5)]) blast
  have Yeq: "(Y = Y') \<longleftrightarrow> (a1 = b1 \<and> a2 = b2 \<and> a3 = b3 \<and> a4 = b4)"
    unfolding Y_def Y'_def
    by (simp only: lex_step [OF bd(3) bd(7)] lex_step [OF bd(2) bd(6)] lex_step [OF bd(1) bd(5)]) blast
  have Mle: "(M \<le> M') \<longleftrightarrow> (f1 < g1 \<or> f1 = g1 \<and> (f2 < g2 \<or> f2 = g2))"
  proof -
    have "(M < M') \<longleftrightarrow> (f1 < g1 \<or> f1 = g1 \<and> f2 < g2)"
      unfolding M_def M'_def by (rule lex_step(1) [OF bd(4) bd(8)])
    moreover have "(M = M') \<longleftrightarrow> (f1 = g1 \<and> f2 = g2)"
      unfolding M_def M'_def by (rule lex_step(2) [OF bd(4) bd(8)])
    ultimately show ?thesis unfolding le_less by blast
  qed
  have Mb: "1 \<le> M" "M \<le> 12" "1 \<le> M'" "M' \<le> 12"
    using ma mb unfolding M_def M'_def defs by (simp_all add: number_of_def)
  have I: "month_index [y1, y2, y3, y4, CHR ''-'', m1, m2] = 12 * Y + M"
    "month_index [z1, z2, z3, z4, CHR ''-'', n1, n2] = 12 * Y' + M'"
    unfolding Y_def Y'_def M_def M'_def defs by (simp_all add: month_index_def number_of_def)
  show ?thesis
    unfolding L I month_step [OF Mb] Ylt Yeq Mle by blast
qed

lemma month_text_form:
  assumes "month_text t"
  shows "\<exists>y1 y2 y3 y4 m1 m2.
           t = [y1, y2, y3, y4, CHR ''-'', m1, m2]
         \<and> is_digit y1 \<and> is_digit y2 \<and> is_digit y3 \<and> is_digit y4
         \<and> is_digit m1 \<and> is_digit m2
         \<and> 1 \<le> number_of [m1, m2] \<and> number_of [m1, m2] \<le> 12"
  using assms unfolding month_text_def
  by (simp split: list.splits)

text \<open>Between month texts, the order of texts is the order of time.\<close>

lemma month_text_chronological:
  assumes "month_text a" and "month_text b"
  shows "a \<le> b \<longleftrightarrow> month_index a \<le> month_index b"
proof -
  from month_text_form [OF assms(1)] obtain y1 y2 y3 y4 m1 m2 where
    a: "a = [y1, y2, y3, y4, CHR ''-'', m1, m2]"
       "is_digit y1" "is_digit y2" "is_digit y3" "is_digit y4" "is_digit m1" "is_digit m2"
       "1 \<le> number_of [m1, m2]" "number_of [m1, m2] \<le> 12"
    by blast
  from month_text_form [OF assms(2)] obtain z1 z2 z3 z4 n1 n2 where
    b: "b = [z1, z2, z3, z4, CHR ''-'', n1, n2]"
       "is_digit z1" "is_digit z2" "is_digit z3" "is_digit z4" "is_digit n1" "is_digit n2"
       "1 \<le> number_of [n1, n2]" "number_of [n1, n2] \<le> 12"
    by blast
  show ?thesis
    unfolding a(1) b(1)
    by (rule ym_text_le [OF a(2-7) b(2-7) a(8,9) b(8,9)])
qed

text \<open>For a calendar date the table of \<^verbatim>\<open>strftime\<close> holds a month text.\<close>

lemma calendar_date_month_text:
  assumes "calendar_date s"
  shows "month_text (take 7 s)"
  using assms unfolding calendar_date_def month_text_def
  by (simp split: list.splits)

lemma sorted_wrt_map_filter:
  assumes "sorted_wrt Q xs"
    and "\<And>x y a b. x \<in> set xs \<Longrightarrow> y \<in> set xs \<Longrightarrow> Q x y \<Longrightarrow> f x = Some a \<Longrightarrow> f y = Some b
           \<Longrightarrow> P a b"
  shows "sorted_wrt P (List.map_filter f xs)"
  using assms
proof (induction xs)
  case Nil
  show ?case by (simp add: List.map_filter_simps)
next
  case (Cons x xs)
  have ih: "sorted_wrt P (List.map_filter f xs)"
  proof (rule Cons.IH)
    show "sorted_wrt Q xs" using Cons.prems(1) by simp
  next
    fix u v a b
    assume "u \<in> set xs" "v \<in> set xs" "Q u v" "f u = Some a" "f v = Some b"
    then show "P a b" using Cons.prems(2) [of u v a b] by simp
  qed
  show ?case
  proof (cases "f x")
    case None
    then show ?thesis using ih by (simp add: List.map_filter_simps)
  next
    case (Some a)
    have "\<And>b. b \<in> set (List.map_filter f xs) \<Longrightarrow> P a b"
    proof -
      fix b assume "b \<in> set (List.map_filter f xs)"
      then obtain y where y: "y \<in> set xs" "f y = Some b"
        by (auto simp: List.map_filter_def)
      have "Q x y" using Cons.prems(1) y(1) by simp
      then show "P a b" using Cons.prems(2) [of x y a b] y Some by simp
    qed
    then show ?thesis using ih Some by (simp add: List.map_filter_simps)
  qed
qed

text \<open>
  C3, amended. monthly_revenue returns one row per distinct value of
  \<^verbatim>\<open>strftime('%Y-%m', order_date)\<close> over the order rows of any status, NULL included (all
  orders whose date is not read as a time value share the row with month NULL), in
  ascending order of that value, NULL first. The revenue of a row is the \<^verbatim>\<open>SUM\<close>, over
  the orders with that value, of the amount of a PAID order and of zero for any other
  order. Among the rows whose month is a month text \<^verbatim>\<open>YYYY-MM\<close> the order is
  chronological.
\<close>

theorem monthly_revenue_buckets:
  "sorted (map mr_ym (monthly_revenue E d))
   \<and> distinct (map mr_ym (monthly_revenue E d))
   \<and> set (map mr_ym (monthly_revenue E d)) = (\<lambda>x. strftime_ym E (order_date x)) ` set (orders d)
   \<and> (\<forall>r \<in> set (monthly_revenue E d).
        mr_revenue r = sum_of E (map counted
                         (filter (\<lambda>x. strftime_ym E (order_date x) = mr_ym r) (orders d))))
   \<and> sorted_wrt (\<lambda>a b. month_text a \<and> month_text b \<longrightarrow> month_index a < month_index b)
        (List.map_filter mr_ym (monthly_revenue E d))"
proof (intro conjI)
  let ?R = "monthly_revenue E d"
  show s: "sorted (map mr_ym ?R)"
    by (simp only: monthly_revenue_ym group_by_sorted)
  show dd: "distinct (map mr_ym ?R)"
    by (simp only: monthly_revenue_ym group_by_distinct)
  show "set (map mr_ym ?R) = (\<lambda>x. strftime_ym E (order_date x)) ` set (orders d)"
    by (simp only: monthly_revenue_ym group_by_keys) simp
  show "\<forall>r \<in> set ?R.
        mr_revenue r = sum_of E (map counted
                         (filter (\<lambda>x. strftime_ym E (order_date x) = mr_ym r) (orders d)))"
    by (auto simp: monthly_revenue_groups group_by_mem paid_counted)
  have "sorted_wrt (<) (map mr_ym ?R)"
    using s dd by (simp only: strict_sorted_iff)
  then have q: "sorted_wrt (\<lambda>r r'. mr_ym r < mr_ym r') ?R"
    by (simp only: sorted_wrt_map)
  show "sorted_wrt (\<lambda>a b. month_text a \<and> month_text b \<longrightarrow> month_index a < month_index b)
          (List.map_filter mr_ym ?R)"
  proof (rule sorted_wrt_map_filter [OF q])
    fix x y a b
    assume lt: "mr_ym x < mr_ym y" and a: "mr_ym x = Some a" and b: "mr_ym y = Some b"
    have "a < b" using lt a b by simp
    then have nle: "\<not> b \<le> a" by simp
    show "month_text a \<and> month_text b \<longrightarrow> month_index a < month_index b"
    proof
      assume "month_text a \<and> month_text b"
      then have "\<not> month_index b \<le> month_index a"
        using month_text_chronological [of b a] nle by simp
      then show "month_index a < month_index b" by simp
    qed
  qed
qed

lemma january_monthly: "monthly_revenue example_engine january_db
     = [\<lparr>mr_ym = Some ''2024-01'', mr_revenue = 10\<rparr>]"
  by code_simp

lemma quarter_monthly: "monthly_revenue example_engine quarter_db
     = [\<lparr>mr_ym = Some ''2024-01'', mr_revenue = 10\<rparr>,
        \<lparr>mr_ym = Some ''2024-02'', mr_revenue = 0\<rparr>,
        \<lparr>mr_ym = Some ''2024-03'', mr_revenue = 7\<rparr>]"
  by code_simp

theorem monthly_revenue_buckets_witness:
  "monthly_revenue example_engine january_db = [\<lparr>mr_ym = Some ''2024-01'', mr_revenue = 10\<rparr>]
   \<and> monthly_revenue example_engine quarter_db
       = [\<lparr>mr_ym = Some ''2024-01'', mr_revenue = 10\<rparr>,
          \<lparr>mr_ym = Some ''2024-02'', mr_revenue = 0\<rparr>,
          \<lparr>mr_ym = Some ''2024-03'', mr_revenue = 7\<rparr>]
   \<and> month_text ''2024-01'' \<and> month_text ''2024-02'' \<and> month_text ''2024-03''
   \<and> sorted (map mr_ym (monthly_revenue example_engine quarter_db))
   \<and> distinct (map mr_ym (monthly_revenue example_engine quarter_db))
   \<and> sorted_wrt (\<lambda>a b. month_text a \<and> month_text b \<longrightarrow> month_index a < month_index b)
        (List.map_filter mr_ym (monthly_revenue example_engine quarter_db))"
proof -
  have t: "month_text ''2024-01'' \<and> month_text ''2024-02'' \<and> month_text ''2024-03''"
    by code_simp
  show ?thesis
    using monthly_revenue_buckets [of example_engine quarter_db] january_monthly
      quarter_monthly t
    by simp
qed

subsection \<open>category_city_matrix\<close>

lemma category_city_matrix_groups:
  "category_city_matrix E d =
     map (\<lambda>((cty, cat), g).
               \<lparr>m_city = cty, m_category = cat,
                m_revenue = sum_of E (map (paid_amount \<circ> snd) g)\<rparr>)
            (group_by (\<lambda>(c, x). (city c, category x)) (join_rows d))"
proof -
  let ?f = "\<lambda>((cty, cat), g).
               \<lparr>m_city = cty, m_category = cat,
                m_revenue = sum_of E (map (paid_amount \<circ> snd) g)\<rparr>"
  let ?G = "group_by (\<lambda>(c, x). (city c, category x)) (join_rows d)"
  have "map (\<lambda>r. (m_city r, m_category r)) (map ?f ?G) = map fst ?G"
    by (simp add: comp_def case_prod_unfold)
  then have "sorted (map (\<lambda>r. (m_city r, m_category r)) (map ?f ?G))"
    by (simp only: group_by_sorted)
  then show ?thesis
    unfolding category_city_matrix_def by (rule sort_key_id_if_sorted)
qed

lemma category_city_matrix_keys:
  "map (\<lambda>r. (m_city r, m_category r)) (category_city_matrix E d)
     = map fst (group_by (\<lambda>(c, x). (city c, category x)) (join_rows d))"
  by (simp add: category_city_matrix_groups comp_def case_prod_unfold)

text \<open>
  C9. For a customer whose city is NULL and who owns an order of some category, the join
  row of that customer and order is among the rows with city NULL and that category,
  and category_city_matrix has the row with city NULL and that category whose revenue
  is the \<^verbatim>\<open>SUM\<close>, over those join rows, of the amount of a PAID order and of zero for any
  other order. The rows with city NULL have distinct categories, and they come before
  all rows with a named city.
\<close>

theorem category_city_matrix_null_city:
  assumes "c \<in> set (customers d)" and "city c = None"
    and "x \<in> set (orders d)" and "o_customer_id x = customer_id c"
  shows "(c, x) \<in> set (filter (\<lambda>(c', y). city c' = None \<and> category y = category x) (join_rows d))
    \<and> \<lparr>m_city = None, m_category = category x,
        m_revenue = sum_of E (map (counted \<circ> snd)
          (filter (\<lambda>(c', y). city c' = None \<and> category y = category x) (join_rows d)))\<rparr>
        \<in> set (category_city_matrix E d)
    \<and> distinct (map m_category (filter (\<lambda>r. m_city r = None) (category_city_matrix E d)))
    \<and> category_city_matrix E d
        = filter (\<lambda>r. m_city r = None) (category_city_matrix E d)
          @ filter (\<lambda>r. m_city r \<noteq> None) (category_city_matrix E d)"
proof (intro conjI)
  let ?R = "category_city_matrix E d"
  let ?K = "\<lambda>r. (m_city r, m_category r)"
  have j: "(c, x) \<in> set (join_rows d)"
    using assms by (simp add: join_rows_mem)
  show "(c, x) \<in> set (filter (\<lambda>(c', y). city c' = None \<and> category y = category x) (join_rows d))"
    using j assms(2) by simp
  have eq: "(\<lambda>r. (case r of (c, x) \<Rightarrow> (city c, category x)) = (None, category x))
           = (\<lambda>(c', y). city c' = None \<and> category y = category x)"
    by auto
  have "(None, category x) \<in> (\<lambda>(c, x). (city c, category x)) ` set (join_rows d)"
    using j assms(2) by force
  then have "((None, category x),
       filter (\<lambda>r. (case r of (c, x) \<Rightarrow> (city c, category x)) = (None, category x)) (join_rows d))
      \<in> set (group_by (\<lambda>(c, x). (city c, category x)) (join_rows d))"
    by (simp add: group_by_mem)
  then show "\<lparr>m_city = None, m_category = category x,
        m_revenue = sum_of E (map (counted \<circ> snd)
          (filter (\<lambda>(c', y). city c' = None \<and> category y = category x) (join_rows d)))\<rparr>
        \<in> set ?R"
    unfolding category_city_matrix_groups eq paid_counted by force
  have dk: "distinct (map ?K ?R)"
    by (simp only: category_city_matrix_keys group_by_distinct)
  have "distinct (map ?K (filter (\<lambda>r. m_city r = None) ?R))"
    using dk by (rule distinct_map_filter)
  moreover have "map ?K (filter (\<lambda>r. m_city r = None) ?R)
       = map (Pair None) (map m_category (filter (\<lambda>r. m_city r = None) ?R))"
    by (induction ?R) auto
  ultimately show "distinct (map m_category (filter (\<lambda>r. m_city r = None) ?R))"
    by (metis distinct_map)
  have sk: "sorted (map ?K ?R)"
    by (simp only: category_city_matrix_keys group_by_sorted)
  show "?R = filter (\<lambda>r. m_city r = None) ?R @ filter (\<lambda>r. m_city r \<noteq> None) ?R"
  proof (rule sorted_partition [OF sk])
    fix a b :: "'a matrix_row"
    assume "m_city a = None" "m_city b \<noteq> None"
    then show "(m_city a, m_category a) < (m_city b, m_category b)"
      by (auto simp: less_prod_def)
  qed
qed

lemma shop_matrix: "category_city_matrix example_engine shop_db =
  [\<lparr>m_city = None, m_category = ''Books'', m_revenue = 0\<rparr>,
   \<lparr>m_city = None, m_category = ''Home'', m_revenue = 7\<rparr>,
   \<lparr>m_city = Some ''Santiago'', m_category = ''Books'', m_revenue = 30\<rparr>,
   \<lparr>m_city = Some ''Santiago'', m_category = ''Home'', m_revenue = 30\<rparr>]"
  by code_simp

lemma shop_null_home:
  "sum_of example_engine (map (counted \<circ> snd)
          (filter (\<lambda>(c', y). city c' = None \<and> category y = ''Home'') (join_rows shop_db))) = 7"
  by code_simp

theorem category_city_matrix_null_city_witness:
  "mk_customer 4 ''Carla'' ''Silva'' ''carla@example.com'' None \<in> set (customers shop_db)
   \<and> city (mk_customer 4 ''Carla'' ''Silva'' ''carla@example.com'' None) = None
   \<and> mk_order 7 4 ''2024-03-16'' ''Home'' 9 ''CANCELLED'' \<in> set (orders shop_db)
   \<and> o_customer_id (mk_order 7 4 ''2024-03-16'' ''Home'' 9 ''CANCELLED'')
       = customer_id (mk_customer 4 ''Carla'' ''Silva'' ''carla@example.com'' None)
   \<and> \<lparr>m_city = None, m_category = ''Home'', m_revenue = 7\<rparr>
       \<in> set (category_city_matrix example_engine shop_db)
   \<and> category_city_matrix example_engine shop_db =
       [\<lparr>m_city = None, m_category = ''Books'', m_revenue = 0\<rparr>,
        \<lparr>m_city = None, m_category = ''Home'', m_revenue = 7\<rparr>,
        \<lparr>m_city = Some ''Santiago'', m_category = ''Books'', m_revenue = 30\<rparr>,
        \<lparr>m_city = Some ''Santiago'', m_category = ''Home'', m_revenue = 30\<rparr>]
   \<and> distinct (map m_category
        (filter (\<lambda>r. m_city r = None) (category_city_matrix example_engine shop_db)))"
proof -
  let ?c = "mk_customer 4 ''Carla'' ''Silva'' ''carla@example.com'' None"
  let ?x = "mk_order 7 4 ''2024-03-16'' ''Home'' 9 ''CANCELLED''"
  have a: "?c \<in> set (customers shop_db)" by (simp add: shop_db_def)
  have b: "city ?c = None" by (simp add: mk_customer_def)
  have c: "?x \<in> set (orders shop_db)" by (simp add: shop_db_def)
  have e: "o_customer_id ?x = customer_id ?c" by (simp add: mk_customer_def mk_order_def)
  have k: "category ?x = ''Home''" by (simp add: mk_order_def)
  note t = category_city_matrix_null_city [OF a b c e, of example_engine,
      unfolded k shop_null_home]
  show ?thesis using t a b c e shop_matrix by blast
qed

subsection \<open>The groups of a customer\<close>

lemma unique_filter:
  assumes "distinct (map f cs)" and "c \<in> set cs"
  shows "filter (\<lambda>c'. f c' = f c) cs = [c]"
  using assms
proof (induction cs)
  case Nil
  then show ?case by simp
next
  case (Cons a cs)
  show ?case
  proof (cases "a = c")
    case True
    have "f c \<notin> f ` set cs" using Cons.prems(1) True by simp
    then have "\<And>c'. c' \<in> set cs \<Longrightarrow> f c' \<noteq> f c" by (metis imageI)
    then have "filter (\<lambda>c'. f c' = f c) cs = []" by (simp add: filter_empty_conv)
    then show ?thesis using True by simp
  next
    case False
    then have m: "c \<in> set cs" using Cons.prems(2) by simp
    then have "f a \<noteq> f c" using Cons.prems(1) by auto
    then show ?thesis using Cons m by simp
  qed
qed

lemma concat_map_if:
  "concat (map (\<lambda>x. if P x then [g x] else []) xs) = map g (filter P xs)"
  by (induction xs) auto

lemma join_filter_customer:
  assumes "primary_key_ok d" and "c \<in> set (customers d)"
  shows "filter (\<lambda>(c', x). customer_id c' = customer_id c) (join_rows d)
           = map (Pair c) (customer_orders d (customer_id c))"
proof -
  let ?F = "\<lambda>x. map (\<lambda>c'. (c', x))
                  (filter (\<lambda>c'. customer_id c' = o_customer_id x) (customers d))"
  have u: "filter (\<lambda>c'. customer_id c' = customer_id c) (customers d) = [c]"
    using assms by (intro unique_filter) (simp_all add: primary_key_ok_def)
  have one: "filter (\<lambda>(c', x). customer_id c' = customer_id c) (?F x)
           = (if o_customer_id x = customer_id c then [(c, x)] else [])" for x
  proof (cases "o_customer_id x = customer_id c")
    case True
    have "filter (\<lambda>(c', x). customer_id c' = customer_id c) (?F x)
        = map (\<lambda>c'. (c', x)) (filter (\<lambda>c'. customer_id c' = customer_id c) (customers d))"
      using True by (simp add: filter_map comp_def)
    then show ?thesis using True u by simp
  next
    case False
    have "filter (\<lambda>(c', x). customer_id c' = customer_id c) (?F x) = []"
      using False by (auto simp: filter_empty_conv)
    then show ?thesis using False by simp
  qed
  have "filter (\<lambda>(c', x). customer_id c' = customer_id c) (join_rows d)
      = concat (map (\<lambda>x. filter (\<lambda>(c', x). customer_id c' = customer_id c) (?F x)) (orders d))"
    by (simp add: join_rows_def filter_concat comp_def)
  also have "\<dots> = concat (map (\<lambda>x. if o_customer_id x = customer_id c then [(c, x)] else [])
                        (orders d))"
    by (simp only: one)
  also have "\<dots> = map (Pair c) (filter (\<lambda>x. o_customer_id x = customer_id c) (orders d))"
    by (rule concat_map_if)
  finally show ?thesis by (simp add: customer_orders_def)
qed

lemma primary_key_unique:
  "primary_key_ok d \<Longrightarrow> c \<in> set (customers d) \<Longrightarrow> c' \<in> set (customers d) \<Longrightarrow>
   customer_id c = customer_id c' \<Longrightarrow> c = c'"
  by (auto simp: primary_key_ok_def distinct_map dest: inj_onD)

lemma join_group:
  assumes pk: "primary_key_ok d"
    and K: "\<And>c c'. K c = K c' \<Longrightarrow> customer_id c = customer_id c'"
  shows "(k, g) \<in> set (group_by (\<lambda>(c, x). K c) (join_rows d)) \<longleftrightarrow>
         (\<exists>c \<in> set (customers d). has_orders d c \<and> k = K c
             \<and> g = map (Pair c) (customer_orders d (customer_id c)))"
proof -
  have grp: "filter (\<lambda>r. (case r of (c, x) \<Rightarrow> K c) = K c) (join_rows d)
              = map (Pair c) (customer_orders d (customer_id c))"
    if c: "c \<in> set (customers d)" for c
  proof -
    have "filter (\<lambda>r. (case r of (c, x) \<Rightarrow> K c) = K c) (join_rows d)
        = filter (\<lambda>(c', x). customer_id c' = customer_id c) (join_rows d)"
    proof (rule filter_cong [OF refl])
      fix r assume r: "r \<in> set (join_rows d)"
      obtain c' x where rx: "r = (c', x)" by (cases r)
      have "c' \<in> set (customers d)" using r rx by (simp add: join_rows_mem)
      then show "((case r of (c, x) \<Rightarrow> K c) = K c) = (case r of (c', x) \<Rightarrow> customer_id c' = customer_id c)"
        using rx K [of c' c] primary_key_unique [OF pk _ c, of c'] by auto
    qed
    then show ?thesis using join_filter_customer [OF pk c] by simp
  qed
  show ?thesis
  proof
    assume "(k, g) \<in> set (group_by (\<lambda>(c, x). K c) (join_rows d))"
    then obtain c x where cx: "(c, x) \<in> set (join_rows d)" and k: "k = K c"
      and g: "g = filter (\<lambda>r. (case r of (c, x) \<Rightarrow> K c) = k) (join_rows d)"
      by (auto simp: group_by_mem)
    have c: "c \<in> set (customers d)" using cx by (simp add: join_rows_mem)
    have "x \<in> set (customer_orders d (customer_id c))"
      using cx by (simp add: join_rows_mem customer_orders_def)
    then have "has_orders d c" by (auto simp: has_orders_def)
    then show "\<exists>c \<in> set (customers d). has_orders d c \<and> k = K c
             \<and> g = map (Pair c) (customer_orders d (customer_id c))"
      using c k g grp [OF c] by auto
  next
    assume "\<exists>c \<in> set (customers d). has_orders d c \<and> k = K c
             \<and> g = map (Pair c) (customer_orders d (customer_id c))"
    then obtain c where c: "c \<in> set (customers d)" and h: "has_orders d c" and k: "k = K c"
      and g: "g = map (Pair c) (customer_orders d (customer_id c))"
      by auto
    obtain x where "x \<in> set (customer_orders d (customer_id c))"
      using h by (cases "customer_orders d (customer_id c)") (auto simp: has_orders_def)
    then have "(c, x) \<in> set (join_rows d)"
      using c by (simp add: join_rows_mem customer_orders_def)
    then have "k \<in> (\<lambda>(c, x). K c) ` set (join_rows d)"
      using k by force
    then show "(k, g) \<in> set (group_by (\<lambda>(c, x). K c) (join_rows d))"
      using g k grp [OF c] by (simp add: group_by_mem)
  qed
qed

text \<open>
  The values that the query sums over the group of a customer are what the
  specification counts for the customer's orders.
\<close>

lemma sum_paid_pairs:
  "sum_of E (map (paid_amount \<circ> snd) (map (Pair c) (customer_orders d cid)))
     = customer_revenue E d cid"
  by (simp add: comp_def customer_revenue_def paid_counted)

subsection \<open>top_customers\<close>

lemma top_groups_set:
  assumes pk: "primary_key_ok d"
  shows "set (top_groups E d) = top_row_of E d ` {c \<in> set (customers d). has_orders d c}"
proof -
  let ?K = "\<lambda>c. (customer_id c, customer_name c, city c)"
  let ?G = "group_by (\<lambda>(c, x). ?K c) (join_rows d)"
  let ?F = "\<lambda>((cid, name, cty), g).
               \<lparr>tc_customer_id = cid, tc_customer = name, tc_city = cty,
                tc_revenue = sum_of E (map (paid_amount \<circ> snd) g)\<rparr>"
  have m: "\<And>k g. (k, g) \<in> set ?G \<longleftrightarrow>
         (\<exists>c \<in> set (customers d). has_orders d c \<and> k = ?K c
             \<and> g = map (Pair c) (customer_orders d (customer_id c)))"
    by (rule join_group [OF pk]) simp
  have F: "?F (?K c, map (Pair c) (customer_orders d (customer_id c))) = top_row_of E d c" for c
    by (simp add: top_row_of_def sum_paid_pairs del: map_map)
  have s: "set (top_groups E d) = ?F ` set ?G"
    by (simp only: top_groups_def set_map)
  show ?thesis
  proof (intro set_eqI iffI)
    fix r assume "r \<in> set (top_groups E d)"
    then obtain k g where kg: "(k, g) \<in> set ?G" and r: "r = ?F (k, g)"
      unfolding s by auto
    from kg m obtain c where c: "c \<in> set (customers d)" "has_orders d c" "k = ?K c"
      "g = map (Pair c) (customer_orders d (customer_id c))" by blast
    have "r = top_row_of E d c" using r c(3,4) F [of c] by simp
    then show "r \<in> top_row_of E d ` {c \<in> set (customers d). has_orders d c}"
      using c by blast
  next
    fix r assume "r \<in> top_row_of E d ` {c \<in> set (customers d). has_orders d c}"
    then obtain c where c: "c \<in> set (customers d)" "has_orders d c" and r: "r = top_row_of E d c"
      by auto
    have "(?K c, map (Pair c) (customer_orders d (customer_id c))) \<in> set ?G"
      using m c by blast
    then have "?F (?K c, map (Pair c) (customer_orders d (customer_id c))) \<in> ?F ` set ?G"
      by (rule imageI)
    then show "r \<in> set (top_groups E d)"
      unfolding s r F .
  qed
qed

lemma top_groups_distinct:
  assumes pk: "primary_key_ok d"
  shows "distinct (map tc_customer_id (top_groups E d))"
proof -
  let ?K = "\<lambda>c. (customer_id c, customer_name c, city c)"
  let ?G = "group_by (\<lambda>(c, x). ?K c) (join_rows d)"
  have m: "\<And>k g. (k, g) \<in> set ?G \<longleftrightarrow>
         (\<exists>c \<in> set (customers d). has_orders d c \<and> k = ?K c
             \<and> g = map (Pair c) (customer_orders d (customer_id c)))"
    by (rule join_group [OF pk]) simp
  have e: "map tc_customer_id (top_groups E d) = map fst (map fst ?G)"
    by (simp add: top_groups_def comp_def case_prod_unfold)
  have "inj_on fst (set (map fst ?G))"
  proof (rule inj_onI)
    fix a b assume a: "a \<in> set (map fst ?G)" and b: "b \<in> set (map fst ?G)" and ab: "fst a = fst b"
    from a obtain ga where "(a, ga) \<in> set ?G" by auto
    with m obtain ca where ca: "ca \<in> set (customers d)" "a = ?K ca" by blast
    from b obtain gb where "(b, gb) \<in> set ?G" by auto
    with m obtain cb where cb: "cb \<in> set (customers d)" "b = ?K cb" by blast
    have "ca = cb" using primary_key_unique [OF pk ca(1) cb(1)] ab ca(2) cb(2) by simp
    then show "a = b" using ca cb by simp
  qed
  then show ?thesis
    unfolding e using group_by_distinct [of "\<lambda>(c, x). ?K c" "join_rows d"]
    by (simp only: distinct_map)
qed

text \<open>
  C1. In a store whose customers have distinct identities, top_customers returns at most
  10 rows, in descending order of revenue, no customer twice. Every row is the row of a
  customer who owns at least one order and whose revenue is positive. The revenue of a
  customer is the \<^verbatim>\<open>SUM\<close>, over the orders that the customer owns, of the amount of a PAID
  order and of zero for an order of any other status. A customer with orders and
  positive revenue is left out only when 10 rows are returned and each of them has at
  least that customer's revenue.
\<close>

theorem top_customers_spec:
  assumes pk: "primary_key_ok d"
  shows "length (top_customers E d) \<le> 10
     \<and> sorted_wrt (\<lambda>a b. tc_revenue b \<le> tc_revenue a) (top_customers E d)
     \<and> distinct (map tc_customer_id (top_customers E d))
     \<and> set (top_customers E d) \<subseteq> top_row_of E d `
          {c \<in> set (customers d). has_orders d c \<and> 0 < customer_revenue E d (customer_id c)}
     \<and> (\<forall>c \<in> set (customers d).
          has_orders d c \<and> 0 < customer_revenue E d (customer_id c)
            \<and> top_row_of E d c \<notin> set (top_customers E d)
          \<longrightarrow> length (top_customers E d) = 10
              \<and> (\<forall>r \<in> set (top_customers E d).
                    customer_revenue E d (customer_id c) \<le> tc_revenue r))"
proof (intro conjI ballI impI)
  let ?C = "top_candidates E d"
  let ?S = "order_desc tc_revenue (\<lambda>r. top_tiebreak E (tc_customer_id r)) ?C"
  have R: "top_customers E d = take 10 ?S" by (simp add: top_customers_def)
  have srt: "sorted_wrt (\<lambda>a b. tc_revenue b \<le> tc_revenue a) ?S"
    by (rule sorted_order_desc)
  have setC: "set ?C = top_row_of E d `
          {c \<in> set (customers d). has_orders d c \<and> 0 < customer_revenue E d (customer_id c)}"
    by (auto simp: top_candidates_def top_groups_set [OF pk] top_row_of_def)
  show "length (top_customers E d) \<le> 10" by (simp add: R)
  show "sorted_wrt (\<lambda>a b. tc_revenue b \<le> tc_revenue a) (top_customers E d)"
    unfolding R using srt by (rule sorted_wrt_take)
  have "distinct (map tc_customer_id ?C)"
    unfolding top_candidates_def using top_groups_distinct [OF pk] by (rule distinct_map_filter)
  then have "distinct (map tc_customer_id ?S)"
    by (simp only: distinct_order_desc)
  then show "distinct (map tc_customer_id (top_customers E d))"
    unfolding R by (simp add: take_map [symmetric])
  show "set (top_customers E d) \<subseteq> top_row_of E d `
          {c \<in> set (customers d). has_orders d c \<and> 0 < customer_revenue E d (customer_id c)}"
    using set_take_subset [of 10 ?S] unfolding R setC [symmetric] by (simp add: set_order_desc)
  {
    fix c assume c: "c \<in> set (customers d)"
      and h: "has_orders d c \<and> 0 < customer_revenue E d (customer_id c)
            \<and> top_row_of E d c \<notin> set (top_customers E d)"
    have "top_row_of E d c \<in> set ?C" using c h setC by auto
    then have "top_row_of E d c \<in> set ?S" by (simp add: set_order_desc)
    then have "top_row_of E d c \<in> set (take 10 ?S) \<union> set (drop 10 ?S)"
      by (metis append_take_drop_id set_append)
    then have dr: "top_row_of E d c \<in> set (drop 10 ?S)" using h R by simp
    then have "drop 10 ?S \<noteq> []" by auto
    then show "length (top_customers E d) = 10" by (simp add: R)
    have "sorted_wrt (\<lambda>a b. tc_revenue b \<le> tc_revenue a) (take 10 ?S @ drop 10 ?S)"
      using srt by simp
    then have "\<forall>r \<in> set (take 10 ?S). \<forall>y \<in> set (drop 10 ?S). tc_revenue y \<le> tc_revenue r"
      unfolding sorted_wrt_append by blast
    then have "\<forall>r \<in> set (take 10 ?S). tc_revenue (top_row_of E d c) \<le> tc_revenue r"
      using dr by blast
    then show "\<And>r. r \<in> set (top_customers E d) \<Longrightarrow>
                customer_revenue E d (customer_id c) \<le> tc_revenue r"
      by (simp add: R top_row_of_def)
  }
qed

lemma two_paid_pk: "primary_key_ok two_paid_db"
  by (simp add: primary_key_ok_def two_paid_db_def mk_customer_def)

lemma eleven_pk: "primary_key_ok eleven_db"
  by (simp add: primary_key_ok_def eleven_db_def mk_customer_def)

text \<open>With eleven customers of positive revenue the one with the least revenue is cut off.\<close>

lemma top_customers_limit_example:
  "map tc_customer_id (top_customers example_engine eleven_db) = [11, 10, 9, 8, 7, 6, 5, 4, 3, 2]
   \<and> map tc_revenue (top_customers example_engine eleven_db)
       = [110, 100, 90, 80, 70, 60, 50, 40, 30, 20]"
  by code_simp

lemma eleven_first:
  "mk_customer 1 ''Ana'' ''Soto'' ''Ana@example.com'' (Some ''Santiago'') \<in> set (customers eleven_db)
   \<and> has_orders eleven_db (mk_customer 1 ''Ana'' ''Soto'' ''Ana@example.com'' (Some ''Santiago''))
   \<and> customer_revenue example_engine eleven_db 1 = 10
   \<and> top_row_of example_engine eleven_db
        (mk_customer 1 ''Ana'' ''Soto'' ''Ana@example.com'' (Some ''Santiago''))
       \<notin> set (top_customers example_engine eleven_db)"
  by code_simp

theorem top_customers_spec_witness:
  "primary_key_ok two_paid_db
   \<and> top_customers example_engine two_paid_db =
     [\<lparr>tc_customer_id = 2, tc_customer = ''Ana Soto'', tc_city = Some ''La Serena'',
       tc_revenue = 100\<rparr>,
      \<lparr>tc_customer_id = 1, tc_customer = ''Luis Rojas'', tc_city = Some ''Santiago'',
       tc_revenue = 50\<rparr>]
   \<and> length (top_customers example_engine two_paid_db) \<le> 10
   \<and> distinct (map tc_customer_id (top_customers example_engine two_paid_db))
   \<and> primary_key_ok eleven_db
   \<and> mk_customer 1 ''Ana'' ''Soto'' ''Ana@example.com'' (Some ''Santiago'') \<in> set (customers eleven_db)
   \<and> has_orders eleven_db (mk_customer 1 ''Ana'' ''Soto'' ''Ana@example.com'' (Some ''Santiago''))
   \<and> (0 :: int) < customer_revenue example_engine eleven_db 1
   \<and> top_row_of example_engine eleven_db
        (mk_customer 1 ''Ana'' ''Soto'' ''Ana@example.com'' (Some ''Santiago''))
       \<notin> set (top_customers example_engine eleven_db)
   \<and> length (top_customers example_engine eleven_db) = 10"
proof -
  let ?c = "mk_customer 1 ''Ana'' ''Soto'' ''Ana@example.com'' (Some ''Santiago'')"
  have i: "customer_id ?c = 1" by (simp add: mk_customer_def)
  note a = top_customers_spec [OF two_paid_pk, of example_engine]
  note b = top_customers_spec [OF eleven_pk, of example_engine]
  have "length (top_customers example_engine eleven_db) = 10"
    using b eleven_first i by auto
  then show ?thesis
    using a two_paid_pk eleven_pk two_paid_top eleven_first by simp
qed

subsection \<open>window_rank_in_city\<close>

lemma concat_map_single:
  "(\<And>x. x \<in> set xs \<Longrightarrow> f x = [g x]) \<Longrightarrow> concat (map f xs) = map g xs"
  by (induction xs) auto

lemma window_groups_map:
  "window_groups E d =
     map (\<lambda>(k, g). \<lparr>g_city = fst k, g_customer_id = snd k,
                    g_customer = customer_name (fst (hd g)),
                    g_revenue = sum_of E (map (paid_amount \<circ> snd) g)\<rparr>)
         (group_by (\<lambda>(c, x). (city c, customer_id c)) (join_rows d))"
  unfolding window_groups_def
proof (rule concat_map_single)
  fix x assume "x \<in> set (group_by (\<lambda>(c, x). (city c, customer_id c)) (join_rows d))"
  then have "snd x \<noteq> []" using group_by_nonempty [of "fst x" "snd x"] by simp
  then show "(case x of
          (x, xa) \<Rightarrow>
            (case x of
             (cty, cid) \<Rightarrow>
               \<lambda>g. case g of [] \<Rightarrow> []
                    | (c, x) # xa \<Rightarrow>
                        [\<lparr>g_city = cty, g_customer_id = cid, g_customer = customer_name c,
                            g_revenue = sum_of E (map (paid_amount \<circ> snd) g)\<rparr>])
             xa) =
         [case x of
          (k, g) \<Rightarrow>
            \<lparr>g_city = fst k, g_customer_id = snd k, g_customer = customer_name (fst (hd g)),
               g_revenue = sum_of E (map (paid_amount \<circ> snd) g)\<rparr>]"
    by (auto split: prod.splits list.splits)
qed

lemma window_groups_keys:
  "map (\<lambda>g. (g_city g, g_customer_id g)) (window_groups E d)
     = map fst (group_by (\<lambda>(c, x). (city c, customer_id c)) (join_rows d))"
  by (simp add: window_groups_map comp_def case_prod_unfold)

lemma window_groups_distinct: "distinct (window_groups E d)"
proof -
  have "distinct (map (\<lambda>g. (g_city g, g_customer_id g)) (window_groups E d))"
    by (simp only: window_groups_keys group_by_distinct)
  then show ?thesis by (simp add: distinct_map)
qed

lemma window_groups_set:
  assumes pk: "primary_key_ok d"
  shows "set (window_groups E d) = group_of E d ` {c \<in> set (customers d). has_orders d c}"
proof -
  let ?K = "\<lambda>c. (city c, customer_id c)"
  let ?G = "group_by (\<lambda>(c, x). ?K c) (join_rows d)"
  let ?F = "\<lambda>(k, g). \<lparr>g_city = fst k, g_customer_id = snd k,
                    g_customer = customer_name (fst (hd g)),
                    g_revenue = sum_of E (map (paid_amount \<circ> snd) g)\<rparr>"
  have m: "\<And>k g. (k, g) \<in> set ?G \<longleftrightarrow>
         (\<exists>c \<in> set (customers d). has_orders d c \<and> k = ?K c
             \<and> g = map (Pair c) (customer_orders d (customer_id c)))"
    by (rule join_group [OF pk]) simp
  have F: "?F (?K c, map (Pair c) (customer_orders d (customer_id c))) = group_of E d c"
    if "has_orders d c" for c
  proof -
    have "customer_orders d (customer_id c) \<noteq> []" using that by (simp add: has_orders_def)
    then have "fst (hd (map (Pair c) (customer_orders d (customer_id c)))) = c"
      by (cases "customer_orders d (customer_id c)") simp_all
    then show ?thesis by (simp add: group_of_def sum_paid_pairs del: map_map)
  qed
  have s: "set (window_groups E d) = ?F ` set ?G"
    by (simp only: window_groups_map set_map)
  show ?thesis
  proof (intro set_eqI iffI)
    fix r assume "r \<in> set (window_groups E d)"
    then obtain k g where kg: "(k, g) \<in> set ?G" and r: "r = ?F (k, g)"
      unfolding s by auto
    from kg m obtain c where c: "c \<in> set (customers d)" "has_orders d c" "k = ?K c"
      "g = map (Pair c) (customer_orders d (customer_id c))" by blast
    have "r = group_of E d c" using r c(3,4) F [OF c(2)] by simp
    then show "r \<in> group_of E d ` {c \<in> set (customers d). has_orders d c}"
      using c by blast
  next
    fix r assume "r \<in> group_of E d ` {c \<in> set (customers d). has_orders d c}"
    then obtain c where c: "c \<in> set (customers d)" "has_orders d c" and r: "r = group_of E d c"
      by auto
    have "(?K c, map (Pair c) (customer_orders d (customer_id c))) \<in> set ?G"
      using m c by blast
    then have "?F (?K c, map (Pair c) (customer_orders d (customer_id c))) \<in> ?F ` set ?G"
      by (rule imageI)
    then show "r \<in> set (window_groups E d)"
      unfolding s r F [OF c(2)] .
  qed
qed

lemma group_of_customers_distinct:
  assumes pk: "primary_key_ok d"
  shows "distinct (map (group_of E d) (filter (has_orders d) (customers d)))"
proof -
  have "distinct (map customer_id (filter (has_orders d) (customers d)))"
    using pk unfolding primary_key_ok_def by (rule distinct_map_filter)
  moreover have "map customer_id (filter (has_orders d) (customers d))
      = map g_customer_id (map (group_of E d) (filter (has_orders d) (customers d)))"
    by (simp add: group_of_def comp_def)
  ultimately have "distinct (map g_customer_id (map (group_of E d) (filter (has_orders d) (customers d))))"
    by simp
  then show ?thesis by (simp only: distinct_map)
qed

lemma window_groups_mset:
  assumes pk: "primary_key_ok d"
  shows "mset (window_groups E d)
           = mset (map (group_of E d) (filter (has_orders d) (customers d)))"
proof -
  have "set (window_groups E d) = set (map (group_of E d) (filter (has_orders d) (customers d)))"
    by (simp add: window_groups_set [OF pk])
  then show ?thesis
    using window_groups_distinct [of E d] group_of_customers_distinct [OF pk, of E]
    by (simp only: set_eq_iff_mset_eq_distinct)
qed

lemma window_groups_city_mset:
  assumes pk: "primary_key_ok d"
  shows "mset (filter (\<lambda>g. g_city g = k) (window_groups E d))
           = mset (map (group_of E d) (city_customers d k))"
proof -
  have "mset (filter (\<lambda>g. g_city g = k) (window_groups E d))
      = filter_mset (\<lambda>g. g_city g = k) (mset (window_groups E d))"
    by simp
  also have "\<dots> = filter_mset (\<lambda>g. g_city g = k)
                    (mset (map (group_of E d) (filter (has_orders d) (customers d))))"
    by (simp only: window_groups_mset [OF pk])
  also have "\<dots> = mset (filter (\<lambda>g. g_city g = k)
                    (map (group_of E d) (filter (has_orders d) (customers d))))"
    by simp
  also have "filter (\<lambda>g. g_city g = k) (map (group_of E d) (filter (has_orders d) (customers d)))
      = map (group_of E d) (city_customers d k)"
    by (simp add: filter_map comp_def group_of_def city_customers_def conj_commute)
  finally show ?thesis .
qed

lemma sort_mset_cong: "mset xs = mset ys \<Longrightarrow> sort xs = sort (ys :: 'a::linorder list)"
  by (metis properties_for_sort sorted_sort mset_sort)

lemma filter_enumerate_le:
  "filter (\<lambda>(i, x). i \<le> m) (enumerate n xs) = enumerate n (take (Suc m - n) xs)"
proof (induction xs arbitrary: n)
  case Nil
  show ?case by simp
next
  case (Cons x xs)
  show ?case
  proof (cases "n \<le> m")
    case True
    then have "Suc m - n = Suc (Suc m - Suc n)" by simp
    then show ?thesis using True Cons [of "Suc n"] by simp
  next
    case False
    then have "Suc m - n = 0" "Suc m - Suc n = 0" by simp_all
    then show ?thesis using False Cons [of "Suc n"] by simp
  qed
qed

lemma window_numbered_alt:
  "window_numbered E d =
     concat (map (\<lambda>k. enumerate 1 (city_ranking E d k))
                 (sort (remdups (map g_city (window_groups E d)))))"
  by (simp add: window_numbered_def group_by_def comp_def city_ranking_def)

lemma filter_enumerate_snd:
  "(\<And>x. x \<in> set xs \<Longrightarrow> P x = b) \<Longrightarrow>
   filter (\<lambda>(n, x). P x) (enumerate m xs) = (if b then enumerate m xs else [])"
  by (induction xs arbitrary: m) auto

lemma concat_map_absent:
  "k \<notin> set ks \<Longrightarrow> concat (map (\<lambda>k'. if k' = k then F k' else []) ks) = []"
  by (induction ks) auto

lemma concat_map_present:
  "distinct ks \<Longrightarrow> k \<in> set ks \<Longrightarrow>
   concat (map (\<lambda>k'. if k' = k then F k' else []) ks) = F k"
proof (induction ks)
  case Nil
  then show ?case by simp
next
  case (Cons a ks)
  show ?case
  proof (cases "a = k")
    case True
    then have "k \<notin> set ks" using Cons.prems(1) by simp
    then show ?thesis using True by (simp add: concat_map_absent)
  next
    case False
    then show ?thesis using Cons by simp
  qed
qed

lemma city_ranking_city: "x \<in> set (city_ranking E d k) \<Longrightarrow> g_city x = k"
  by (simp add: city_ranking_def set_order_desc)

lemma window_numbered_city:
  "filter (\<lambda>(n, g). g_city g = k) (window_numbered E d) = enumerate 1 (city_ranking E d k)"
proof -
  define G where "G = window_groups E d"
  define R where "R = (\<lambda>k. enumerate 1 (city_ranking E d k))"
  define keys where "keys = sort (remdups (map g_city G))"
  have N: "window_numbered E d = concat (map R keys)"
    unfolding R_def keys_def G_def by (rule window_numbered_alt)
  have one: "filter (\<lambda>(n, g). g_city g = k) (R k') = (if k' = k then R k' else [])" for k'
    unfolding R_def
  proof (rule filter_enumerate_snd)
    fix x assume "x \<in> set (city_ranking E d k')"
    then have "g_city x = k'" by (rule city_ranking_city)
    then show "(g_city x = k) = (k' = k)" by simp
  qed
  have "filter (\<lambda>(n, g). g_city g = k) (concat (map R keys))
      = concat (map (\<lambda>k'. filter (\<lambda>(n, g). g_city g = k) (R k')) keys)"
    by (simp only: filter_concat map_map comp_def)
  also have "\<dots> = concat (map (\<lambda>k'. if k' = k then R k' else []) keys)"
    by (simp only: one)
  also have "\<dots> = R k"
  proof (cases "k \<in> set keys")
    case True
    have "distinct keys" unfolding keys_def by simp
    then show ?thesis using True by (rule concat_map_present)
  next
    case False
    then have "k \<notin> g_city ` set G" unfolding keys_def by simp
    then have "filter (\<lambda>g. g_city g = k) G = []"
      unfolding filter_empty_conv by blast
    then have "R k = []" unfolding R_def city_ranking_def G_def order_desc_def by simp
    then show ?thesis using concat_map_absent [OF False] by simp
  qed
  finally show ?thesis unfolding N R_def .
qed

lemma enumerate_sndD: "(n, x) \<in> set (enumerate m xs) \<Longrightarrow> x \<in> set xs"
  by (auto simp: in_set_enumerate_eq)

lemma window_rank_city:
  "filter (\<lambda>r. wr_city r = k) (window_rank_in_city E d)
     = map (\<lambda>(n, g). \<lparr>wr_city = g_city g, wr_customer = g_customer g,
                      wr_revenue = g_revenue g, wr_rn = n\<rparr>)
         (enumerate 1 (take 3 (city_ranking E d k)))"
proof -
  let ?proj = "\<lambda>(n, g). \<lparr>wr_city = g_city g, wr_customer = g_customer g,
                      wr_revenue = g_revenue g, wr_rn = n\<rparr>"
  let ?K = "\<lambda>r. (wr_city r, wr_rn r)"
  let ?S = "city_ranking E d k"
  have a: "filter (\<lambda>r. wr_city r = k) (filter (\<lambda>r. wr_rn r \<le> 3) (window_ranked E d))
         = map ?proj (enumerate 1 (take 3 ?S))"
  proof -
    have "filter (\<lambda>r. wr_city r = k) (filter (\<lambda>r. wr_rn r \<le> 3) (window_ranked E d))
        = filter (\<lambda>r. wr_rn r \<le> 3) (filter (\<lambda>r. wr_city r = k) (window_ranked E d))"
      by (simp add: conj_commute)
    also have "filter (\<lambda>r. wr_city r = k) (window_ranked E d)
        = map ?proj (filter (\<lambda>(n, g). g_city g = k) (window_numbered E d))"
      by (simp add: window_ranked_def filter_map comp_def case_prod_unfold)
    also have "\<dots> = map ?proj (enumerate 1 ?S)"
      by (simp only: window_numbered_city)
    also have "filter (\<lambda>r. wr_rn r \<le> 3) (map ?proj (enumerate 1 ?S))
        = map ?proj (filter (\<lambda>(i, x). i \<le> 3) (enumerate 1 ?S))"
      by (simp add: filter_map comp_def case_prod_unfold)
    also have "\<dots> = map ?proj (enumerate 1 (take 3 ?S))"
      by (simp add: filter_enumerate_le)
    finally show ?thesis .
  qed
  have city: "\<And>g. g \<in> set (take 3 ?S) \<Longrightarrow> g_city g = k"
    using set_take_subset [of 3 ?S] city_ranking_city by blast
  have "map ?K (map ?proj (enumerate 1 (take 3 ?S)))
      = map (\<lambda>p. (g_city (snd p), fst p)) (enumerate 1 (take 3 ?S))"
    by (simp only: map_map comp_def case_prod_unfold rank_row.simps)
  also have "\<dots> = map (Pair k \<circ> fst) (enumerate 1 (take 3 ?S))"
  proof (rule map_cong [OF refl])
    fix p assume "p \<in> set (enumerate 1 (take 3 ?S))"
    then have "snd p \<in> set (take 3 ?S)"
      using enumerate_sndD [of "fst p" "snd p" 1 "take 3 ?S"] by simp
    then have "g_city (snd p) = k" by (rule city)
    then show "(g_city (snd p), fst p) = (Pair k \<circ> fst) p"
      by simp
  qed
  also have "\<dots> = map (Pair k) (map fst (enumerate 1 (take 3 ?S)))"
    by (simp only: map_map)
  also have "map fst (enumerate 1 (take 3 ?S)) = [1..<Suc (length (take 3 ?S))]"
    by (simp only: map_fst_enumerate) simp
  finally have k: "map ?K (map ?proj (enumerate 1 (take 3 ?S)))
      = map (Pair k) [1..<Suc (length (take 3 ?S))]" .
  have "sorted_wrt (\<lambda>x y. (k, x) \<le> (k, y)) [1..<Suc (length (take 3 ?S))]"
    by (rule sorted_wrt_mono_rel [OF _ sorted_upt]) (simp add: less_eq_prod_def)
  then have "sorted (map (Pair k) [1..<Suc (length (take 3 ?S))])"
    by (simp only: sorted_map)
  then have srt: "sorted (map ?K (map ?proj (enumerate 1 (take 3 ?S))))"
    by (simp only: k)
  have "filter (\<lambda>r. wr_city r = k) (window_rank_in_city E d)
      = sort_key ?K (filter (\<lambda>r. wr_city r = k) (filter (\<lambda>r. wr_rn r \<le> 3) (window_ranked E d)))"
    unfolding window_rank_in_city_def by (rule filter_sort)
  also have "\<dots> = sort_key ?K (map ?proj (enumerate 1 (take 3 ?S)))"
    by (simp only: a)
  also have "\<dots> = map ?proj (enumerate 1 (take 3 ?S))"
    using srt by (rule sort_key_id_if_sorted)
  finally show ?thesis .
qed

lemma city_ranking_length:
  assumes pk: "primary_key_ok d"
  shows "length (city_ranking E d k) = length (city_customers d k)"
proof -
  have "size (mset (filter (\<lambda>g. g_city g = k) (window_groups E d)))
      = size (mset (map (group_of E d) (city_customers d k)))"
    by (simp only: window_groups_city_mset [OF pk])
  then show ?thesis by (simp only: size_mset length_map city_ranking_def length_order_desc)
qed

lemma city_ranking_revenues:
  assumes pk: "primary_key_ok d"
  shows "map g_revenue (city_ranking E d k)
       = rev (sort (map (\<lambda>c. customer_revenue E d (customer_id c)) (city_customers d k)))"
proof -
  have "mset (map g_revenue (filter (\<lambda>g. g_city g = k) (window_groups E d)))
      = mset (map g_revenue (map (group_of E d) (city_customers d k)))"
    using window_groups_city_mset [OF pk, where E = E and k = k] by (metis mset_map)
  also have "map g_revenue (map (group_of E d) (city_customers d k))
      = map (\<lambda>c. customer_revenue E d (customer_id c)) (city_customers d k)"
    by (simp add: comp_def group_of_def)
  finally have "sort (map g_revenue (filter (\<lambda>g. g_city g = k) (window_groups E d)))
      = sort (map (\<lambda>c. customer_revenue E d (customer_id c)) (city_customers d k))"
    by (rule sort_mset_cong)
  then show ?thesis by (simp only: city_ranking_def map_order_desc)
qed

lemma city_ranking_set:
  assumes pk: "primary_key_ok d"
  shows "set (city_ranking E d k) = group_of E d ` set (city_customers d k)"
proof -
  have "set (city_ranking E d k) = set (filter (\<lambda>g. g_city g = k) (window_groups E d))"
    by (simp only: city_ranking_def set_order_desc)
  also have "\<dots> = set (map (group_of E d) (city_customers d k))"
    using window_groups_city_mset [OF pk, where E = E and k = k] by (rule mset_eq_setD)
  finally show ?thesis by simp
qed

text \<open>
  C2. In a store whose customers have distinct identities, the rows of
  window_rank_in_city are ordered by city, then rank. For every city (NULL being a city
  of its own) the ranks of its rows are 1, 2, ... up to the smaller of 3 and the number
  of customers of that city who own at least one order: distinct, consecutive, from 1,
  without gaps, whatever ties there are. The revenues of these rows are the three
  largest revenues of those customers, largest first. Every row shows the name and the
  revenue of a customer of its city who owns an order.
\<close>

theorem window_rank_in_city_spec:
  assumes pk: "primary_key_ok d"
  shows "sorted (map (\<lambda>r. (wr_city r, wr_rn r)) (window_rank_in_city E d))
    \<and> (\<forall>k. map wr_rn (filter (\<lambda>r. wr_city r = k) (window_rank_in_city E d))
            = [1..<Suc (min 3 (length (city_customers d k)))])
    \<and> (\<forall>k. map wr_revenue (filter (\<lambda>r. wr_city r = k) (window_rank_in_city E d))
            = take 3 (rev (sort (map (\<lambda>c. customer_revenue E d (customer_id c))
                                     (city_customers d k)))))
    \<and> (\<forall>r \<in> set (window_rank_in_city E d).
          \<exists>c \<in> set (customers d). has_orders d c \<and> city c = wr_city r
             \<and> customer_name c = wr_customer r
             \<and> customer_revenue E d (customer_id c) = wr_revenue r)"
proof (intro conjI allI ballI)
  show "sorted (map (\<lambda>r. (wr_city r, wr_rn r)) (window_rank_in_city E d))"
    unfolding window_rank_in_city_def by (rule sorted_sort_key)
next
  fix k
  let ?S = "city_ranking E d k"
  have "map wr_rn (filter (\<lambda>r. wr_city r = k) (window_rank_in_city E d))
      = map fst (enumerate 1 (take 3 ?S))"
    by (simp add: window_rank_city comp_def case_prod_unfold del: map_fst_enumerate)
  also have "\<dots> = [1..<Suc (length (take 3 ?S))]"
    by (simp only: map_fst_enumerate) simp
  also have "length (take 3 ?S) = min 3 (length (city_customers d k))"
    by (simp add: city_ranking_length [OF pk] min.commute)
  finally show "map wr_rn (filter (\<lambda>r. wr_city r = k) (window_rank_in_city E d))
            = [1..<Suc (min 3 (length (city_customers d k)))]" .
next
  fix k
  let ?S = "city_ranking E d k"
  have "map wr_revenue (filter (\<lambda>r. wr_city r = k) (window_rank_in_city E d))
      = map (g_revenue \<circ> snd) (enumerate 1 (take 3 ?S))"
    by (simp add: window_rank_city comp_def case_prod_unfold)
  also have "\<dots> = map g_revenue (map snd (enumerate 1 (take 3 ?S)))"
    by (simp only: map_map)
  also have "\<dots> = take 3 (map g_revenue ?S)"
    by (simp only: map_snd_enumerate take_map)
  finally show "map wr_revenue (filter (\<lambda>r. wr_city r = k) (window_rank_in_city E d))
            = take 3 (rev (sort (map (\<lambda>c. customer_revenue E d (customer_id c))
                                     (city_customers d k))))"
    by (simp only: city_ranking_revenues [OF pk])
next
  fix r assume r: "r \<in> set (window_rank_in_city E d)"
  let ?k = "wr_city r"
  let ?S = "city_ranking E d ?k"
  have "r \<in> set (filter (\<lambda>x. wr_city x = ?k) (window_rank_in_city E d))"
    using r by simp
  then obtain n g where ng: "(n, g) \<in> set (enumerate 1 (take 3 ?S))"
    and rg: "r = \<lparr>wr_city = g_city g, wr_customer = g_customer g,
                      wr_revenue = g_revenue g, wr_rn = n\<rparr>"
    unfolding window_rank_city by auto
  have "g \<in> set (take 3 ?S)" using ng by (rule enumerate_sndD)
  then have "g \<in> set ?S" by (rule in_set_takeD)
  then obtain c where c: "c \<in> set (city_customers d ?k)" "g = group_of E d c"
    unfolding city_ranking_set [OF pk] by auto
  have "c \<in> set (customers d) \<and> has_orders d c"
    using c(1) by (simp add: city_customers_def)
  then show "\<exists>c \<in> set (customers d). has_orders d c \<and> city c = wr_city r
             \<and> customer_name c = wr_customer r
             \<and> customer_revenue E d (customer_id c) = wr_revenue r"
    using c(2) rg by (auto simp: group_of_def)
qed

lemma four_pk: "primary_key_ok four_db"
  by (simp add: primary_key_ok_def four_db_def mk_customer_def)

lemma four_window: "window_rank_in_city example_engine four_db =
     [\<lparr>wr_city = Some ''Santiago'', wr_customer = ''Ana Soto'', wr_revenue = 40, wr_rn = 1\<rparr>,
      \<lparr>wr_city = Some ''Santiago'', wr_customer = ''Luis Rojas'', wr_revenue = 30, wr_rn = 2\<rparr>,
      \<lparr>wr_city = Some ''Santiago'', wr_customer = ''Camila Silva'', wr_revenue = 20, wr_rn = 3\<rparr>]"
  by code_simp

theorem window_rank_in_city_spec_witness:
  "primary_key_ok four_db
   \<and> window_rank_in_city example_engine four_db =
     [\<lparr>wr_city = Some ''Santiago'', wr_customer = ''Ana Soto'', wr_revenue = 40, wr_rn = 1\<rparr>,
      \<lparr>wr_city = Some ''Santiago'', wr_customer = ''Luis Rojas'', wr_revenue = 30, wr_rn = 2\<rparr>,
      \<lparr>wr_city = Some ''Santiago'', wr_customer = ''Camila Silva'', wr_revenue = 20, wr_rn = 3\<rparr>]
   \<and> sorted (map (\<lambda>r. (wr_city r, wr_rn r)) (window_rank_in_city example_engine four_db))
   \<and> length (city_customers four_db (Some ''Santiago'')) = 4
   \<and> map (\<lambda>c. customer_revenue example_engine four_db (customer_id c))
          (city_customers four_db (Some ''Santiago'')) = [40, 30, 20, 10]
   \<and> map wr_rn (filter (\<lambda>r. wr_city r = Some ''Santiago'')
                        (window_rank_in_city example_engine four_db))
       = [1..<Suc (min 3 (length (city_customers four_db (Some ''Santiago''))))]"
proof -
  have n: "length (city_customers four_db (Some ''Santiago'')) = 4"
    by code_simp
  have v: "map (\<lambda>c. customer_revenue example_engine four_db (customer_id c))
          (city_customers four_db (Some ''Santiago'')) = [40, 30, 20, 10]"
    by code_simp
  show ?thesis
    using window_rank_in_city_spec [OF four_pk, of example_engine] four_pk four_window n v
    by blast
qed

text \<open>
  C10. In a store whose customers have distinct identities, two customers with different
  identities, the same city and the same first and last name, each owning at least one
  order, are two groups of window_rank_in_city, numbered with different row numbers.
  Each of them has a row of its own in the result exactly when its row number is at
  most 3, which is the case for both when at most three customers of the city own an
  order: two rows with the same city and the same name, each with the customer's own
  revenue and rank.
\<close>

theorem window_rank_by_customer_identity:
  assumes pk: "primary_key_ok d"
    and c1: "c1 \<in> set (customers d)" and c2: "c2 \<in> set (customers d)"
    and ne: "customer_id c1 \<noteq> customer_id c2"
    and same: "city c1 = city c2" "customer_name c1 = customer_name c2"
    and h1: "has_orders d c1" and h2: "has_orders d c2"
  shows "\<exists>n1 n2. n1 \<noteq> n2
      \<and> (n1, group_of E d c1) \<in> set (window_numbered E d)
      \<and> (n2, group_of E d c2) \<in> set (window_numbered E d)
      \<and> (n1 \<le> 3 \<longleftrightarrow>
           \<lparr>wr_city = city c1, wr_customer = customer_name c1,
            wr_revenue = customer_revenue E d (customer_id c1), wr_rn = n1\<rparr>
           \<in> set (window_rank_in_city E d))
      \<and> (n2 \<le> 3 \<longleftrightarrow>
           \<lparr>wr_city = city c1, wr_customer = customer_name c1,
            wr_revenue = customer_revenue E d (customer_id c2), wr_rn = n2\<rparr>
           \<in> set (window_rank_in_city E d))
      \<and> (length (city_customers d (city c1)) \<le> 3 \<longrightarrow> n1 \<le> 3 \<and> n2 \<le> 3)"
proof -
  let ?k = "city c1"
  let ?S = "city_ranking E d ?k"
  let ?proj = "\<lambda>(n, g). \<lparr>wr_city = g_city g, wr_customer = g_customer g,
                      wr_revenue = g_revenue g, wr_rn = n\<rparr>"
  let ?row = "\<lambda>c n. \<lparr>wr_city = city c1, wr_customer = customer_name c1,
                      wr_revenue = customer_revenue E d (customer_id c), wr_rn = n\<rparr>"
  have g1: "group_of E d c1 \<in> set ?S"
    using c1 h1 by (simp add: city_ranking_set [OF pk] city_customers_def)
  have g2: "group_of E d c2 \<in> set ?S"
    using c2 h2 same by (simp add: city_ranking_set [OF pk] city_customers_def)
  obtain i where i: "i < length ?S" "?S ! i = group_of E d c1"
    using g1 unfolding in_set_conv_nth by blast
  obtain j where j: "j < length ?S" "?S ! j = group_of E d c2"
    using g2 unfolding in_set_conv_nth by blast
  have "group_of E d c1 \<noteq> group_of E d c2"
    using ne by (auto simp: group_of_def)
  then have ij: "Suc i \<noteq> Suc j" using i j by auto
  have e1: "(Suc i, group_of E d c1) \<in> set (enumerate 1 ?S)"
    using i by (simp add: in_set_enumerate_eq)
  have e2: "(Suc j, group_of E d c2) \<in> set (enumerate 1 ?S)"
    using j by (simp add: in_set_enumerate_eq)
  have sub: "set (enumerate 1 ?S) \<subseteq> set (window_numbered E d)"
    using filter_is_subset [of "\<lambda>(n, g). g_city g = ?k" "window_numbered E d"]
    by (simp only: window_numbered_city)
  have n1: "(Suc i, group_of E d c1) \<in> set (window_numbered E d)" using e1 sub by blast
  have n2: "(Suc j, group_of E d c2) \<in> set (window_numbered E d)" using e2 sub by blast
  have "?proj (Suc i, group_of E d c1) \<in> set (window_ranked E d)"
    unfolding window_ranked_def set_map using n1 by (rule imageI)
  then have r1: "?row c1 (Suc i) \<in> set (window_ranked E d)"
    by (simp add: group_of_def)
  have "?proj (Suc j, group_of E d c2) \<in> set (window_ranked E d)"
    unfolding window_ranked_def set_map using n2 by (rule imageI)
  then have r2: "?row c2 (Suc j) \<in> set (window_ranked E d)"
    using same by (simp add: group_of_def)
  have out: "r \<in> set (window_rank_in_city E d) \<longleftrightarrow> r \<in> set (window_ranked E d) \<and> wr_rn r \<le> 3"
    for r
    by (auto simp: window_rank_in_city_def)
  have o1: "Suc i \<le> 3 \<longleftrightarrow> ?row c1 (Suc i) \<in> set (window_rank_in_city E d)"
    using r1 by (simp add: out)
  have o2: "Suc j \<le> 3 \<longleftrightarrow> ?row c2 (Suc j) \<in> set (window_rank_in_city E d)"
    using r2 by (simp add: out)
  have len: "length ?S = length (city_customers d ?k)"
    by (rule city_ranking_length [OF pk])
  have few: "length (city_customers d ?k) \<le> 3 \<longrightarrow> Suc i \<le> 3 \<and> Suc j \<le> 3"
    using i(1) j(1) len by simp
  show ?thesis using ij n1 n2 o1 o2 few by blast
qed

lemma shop_pk: "primary_key_ok shop_db"
  by (simp add: primary_key_ok_def shop_db_def mk_customer_def)

lemma shop_window: "window_rank_in_city example_engine shop_db =
     [\<lparr>wr_city = None, wr_customer = ''Carla Silva'', wr_revenue = 7, wr_rn = 1\<rparr>,
      \<lparr>wr_city = Some ''Santiago'', wr_customer = ''Ana Soto'', wr_revenue = 30, wr_rn = 1\<rparr>,
      \<lparr>wr_city = Some ''Santiago'', wr_customer = ''Luis Rojas'', wr_revenue = 20, wr_rn = 2\<rparr>,
      \<lparr>wr_city = Some ''Santiago'', wr_customer = ''Ana Soto'', wr_revenue = 10, wr_rn = 3\<rparr>]"
  by code_simp

theorem window_rank_by_customer_identity_witness:
  "primary_key_ok shop_db
   \<and> mk_customer 1 ''Ana'' ''Soto'' ''ana.soto@example.com'' (Some ''Santiago'')
       \<in> set (customers shop_db)
   \<and> mk_customer 3 ''Ana'' ''Soto'' ''ana.soto2@example.com'' (Some ''Santiago'')
       \<in> set (customers shop_db)
   \<and> has_orders shop_db (mk_customer 1 ''Ana'' ''Soto'' ''ana.soto@example.com'' (Some ''Santiago''))
   \<and> has_orders shop_db (mk_customer 3 ''Ana'' ''Soto'' ''ana.soto2@example.com'' (Some ''Santiago''))
   \<and> length (city_customers shop_db (Some ''Santiago'')) \<le> 3
   \<and> window_rank_in_city example_engine shop_db =
     [\<lparr>wr_city = None, wr_customer = ''Carla Silva'', wr_revenue = 7, wr_rn = 1\<rparr>,
      \<lparr>wr_city = Some ''Santiago'', wr_customer = ''Ana Soto'', wr_revenue = 30, wr_rn = 1\<rparr>,
      \<lparr>wr_city = Some ''Santiago'', wr_customer = ''Luis Rojas'', wr_revenue = 20, wr_rn = 2\<rparr>,
      \<lparr>wr_city = Some ''Santiago'', wr_customer = ''Ana Soto'', wr_revenue = 10, wr_rn = 3\<rparr>]
   \<and> (\<exists>n1 n2. n1 \<noteq> n2 \<and> n1 \<le> 3 \<and> n2 \<le> 3
      \<and> \<lparr>wr_city = Some ''Santiago'', wr_customer = ''Ana Soto'', wr_revenue = 10, wr_rn = n1\<rparr>
          \<in> set (window_rank_in_city example_engine shop_db)
      \<and> \<lparr>wr_city = Some ''Santiago'', wr_customer = ''Ana Soto'', wr_revenue = 30, wr_rn = n2\<rparr>
          \<in> set (window_rank_in_city example_engine shop_db))"
proof -
  let ?a = "mk_customer 1 ''Ana'' ''Soto'' ''ana.soto@example.com'' (Some ''Santiago'')"
  let ?b = "mk_customer 3 ''Ana'' ''Soto'' ''ana.soto2@example.com'' (Some ''Santiago'')"
  have a: "?a \<in> set (customers shop_db)" and b: "?b \<in> set (customers shop_db)"
    by (simp_all add: shop_db_def)
  have ne: "customer_id ?a \<noteq> customer_id ?b" by (simp add: mk_customer_def)
  have s1: "city ?a = city ?b" and s2: "customer_name ?a = customer_name ?b"
    by (simp_all add: mk_customer_def customer_name_def)
  have ha: "has_orders shop_db ?a" and hb: "has_orders shop_db ?b"
    by (simp_all add: has_orders_def customer_orders_def shop_db_def mk_customer_def mk_order_def)
  have ca: "city ?a = Some ''Santiago''" and na: "customer_name ?a = ''Ana Soto''"
    by (simp_all add: mk_customer_def customer_name_def)
  have ra: "customer_revenue example_engine shop_db (customer_id ?a) = 10"
    and rb: "customer_revenue example_engine shop_db (customer_id ?b) = 30"
    by code_simp+
  have few: "length (city_customers shop_db (Some ''Santiago'')) \<le> 3"
    by code_simp
  note t = window_rank_by_customer_identity [OF shop_pk a b ne s1 s2 ha hb, of example_engine,
      unfolded ca na ra rb]
  show ?thesis
    using t shop_pk a b ha hb few shop_window by blast
qed

section \<open>The examples and the tables\<close>

lemma example_engine_agrees: "agrees_with_tables example_engine"
  by (simp add: agrees_with_tables_def example_engine_def)

lemma day_first_any_engine:
  assumes "agrees_with_tables E"
  shows "monthly_revenue E day_first_db =
     [\<lparr>mr_ym = None, mr_revenue = 5\<rparr>, \<lparr>mr_ym = Some ''2024-01'', mr_revenue = 10\<rparr>]"
proof -
  have t1: "strftime_known ''15/01/2024'' = Some None" by code_simp
  have t2: "strftime_known ''2024-01-20'' = Some (Some ''2024-01'')" by code_simp
  have t3: "sum_known [5] = Some 5" by code_simp
  have t4: "sum_known [10] = Some 10" by code_simp
  have k1: "strftime_ym E ''15/01/2024'' = None"
    using assms t1 unfolding agrees_with_tables_def by blast
  have k2: "strftime_ym E ''2024-01-20'' = Some ''2024-01''"
    using assms t2 unfolding agrees_with_tables_def by blast
  have s1: "sum_of E [5] = 5"
    using assms t3 unfolding agrees_with_tables_def by blast
  have s2: "sum_of E [10] = 10"
    using assms t4 unfolding agrees_with_tables_def by blast
  show ?thesis
    by (simp add: monthly_revenue_def group_by_def day_first_db_def mk_order_def
        paid_amount_def k1 k2 s1 s2)
qed

lemma example_stores_schema:
  "schema_ok two_paid_db \<and> schema_ok eleven_db \<and> schema_ok january_db \<and> schema_ok quarter_db
   \<and> schema_ok day_first_db \<and> schema_ok shop_db \<and> schema_ok four_db
   \<and> schema_ok one_customer_db"
  by code_simp

end
